theory Spec2Isabelle
  imports Main
begin

section \<open>The request-composition core of @pnp/sp: sharepointqueryable.ts\<close>

text \<open>
  A shallow embedding of \<^verbatim>\<open>packages/sp/src/sharepointqueryable.ts\<close>: the classes
  \<^verbatim>\<open>SharePointQueryable\<close>, \<^verbatim>\<open>SharePointQueryableCollection\<close> and
  \<^verbatim>\<open>SharePointQueryableInstance\<close>. A JavaScript string is a \<^typ>\<open>string\<close>, an
  optional argument (\<^verbatim>\<open>undefined\<close> or \<^verbatim>\<open>null\<close>) is an \<^typ>\<open>'a option\<close>, an object
  with mutable fields is a record that each method takes and returns.
\<close>

subsection \<open>Strings of the language\<close>

text \<open>\<^verbatim>\<open>Array.prototype.join\<close>: the elements separated by \<open>sep\<close>.\<close>

fun join :: "string \<Rightarrow> string list \<Rightarrow> string" where
  "join sep [] = []"
| "join sep [x] = x"
| "join sep (x # y # ys) = x @ sep @ join sep (y # ys)"

text \<open>
  \<^verbatim>\<open>String.prototype.lastIndexOf\<close> for a search string of one character: the index of
  the last occurrence, \<open>-1\<close> when there is none. The scan runs left to right and keeps
  the last hit.
\<close>

fun lastIndexOf_from :: "char \<Rightarrow> string \<Rightarrow> int \<Rightarrow> int \<Rightarrow> int" where
  "lastIndexOf_from c [] i found = found"
| "lastIndexOf_from c (x # xs) i found =
     lastIndexOf_from c xs (i + 1) (if x = c then i else found)"

definition lastIndexOf :: "string \<Rightarrow> char \<Rightarrow> int" where
  "lastIndexOf s c = lastIndexOf_from c s 0 (- 1)"

text \<open>
  \<^verbatim>\<open>String.prototype.slice(start, end)\<close>: a negative index counts from the end, both
  indices are clamped to the string, an absent \<open>end\<close> is the length.
\<close>

definition slice :: "string \<Rightarrow> int \<Rightarrow> int option \<Rightarrow> string" where
  "slice s b e =
     (let n = int (length s);
          from = (if b < 0 then max (n + b) 0 else min b n);
          to = (case e of None \<Rightarrow> n
                | Some e' \<Rightarrow> if e' < 0 then max (n + e') 0 else min e' n)
      in take (nat (to - from)) (drop (nat from) s))"

subsection \<open>The helpers of @pnp/common the constructor calls\<close>

text \<open>
  Modelled from the spec: \<^verbatim>\<open>combinePaths\<close> of @pnp/common is not part of the source
  file. "\<open>combine(a, b)\<close> concatenates two path segments ensuring exactly one separator
  between them and ignoring an empty/absent \<open>b\<close>." The functions of the source file take
  the combining function as a parameter; this definition instantiates it.
\<close>

fun dropSeps :: "string \<Rightarrow> string" where
  "dropSeps [] = []"
| "dropSeps (c # cs) = (if c = CHR ''/'' then dropSeps cs else c # cs)"

definition combinePaths :: "string \<Rightarrow> string option \<Rightarrow> string" where
  "combinePaths a b =
     (case b of
        None \<Rightarrow> a
      | Some p \<Rightarrow>
          if p = [] then a
          else rev (dropSeps (rev a)) @ ''/'' @ dropSeps p)"

text \<open>
  Modelled from the spec: \<^verbatim>\<open>isUrlAbsolute\<close> of @pnp/common is not part of the source
  file. "An absolute URL (has a scheme/host)": the string starts with \<open>http://\<close>,
  \<open>https://\<close> or \<open>//\<close>. The functions of the source file take the test as a parameter;
  this definition instantiates it.
\<close>

definition isUrlAbsolute :: "string \<Rightarrow> bool" where
  "isUrlAbsolute u =
     (take 7 u = ''http://'' \<or> take 8 u = ''https://'' \<or> take 2 u = ''//'')"

subsection \<open>The query accumulator\<close>

text \<open>
  Modelled from the spec: the class \<^verbatim>\<open>Dictionary\<close> of @pnp/common is not part of the
  source file. "An ordered, key-unique mapping of query-string parameter name to value":
  \<open>add\<close> overwrites the value of a key that is present and keeps its position, and
  appends a key that is new; \<open>get\<close> is the value or \<^verbatim>\<open>null\<close> (\<open>None\<close>); \<open>getKeys\<close> is
  the keys in insertion order; \<open>merge\<close> copies all entries of the other dictionary into
  this one, overwriting on key collision, and leaves the other one unmodified.
\<close>

type_synonym Dictionary = "(string \<times> string) list"

fun dict_add :: "string \<Rightarrow> string \<Rightarrow> Dictionary \<Rightarrow> Dictionary" where
  "dict_add k v [] = [(k, v)]"
| "dict_add k v ((k', v') # d) =
     (if k' = k then (k, v) # d else (k', v') # dict_add k v d)"

definition dict_get :: "Dictionary \<Rightarrow> string \<Rightarrow> string option" where
  "dict_get d k = map_of d k"

definition dict_getKeys :: "Dictionary \<Rightarrow> string list" where
  "dict_getKeys d = map fst d"

definition dict_count :: "Dictionary \<Rightarrow> nat" where
  "dict_count d = length d"

text \<open>
  \<open>merge\<close> returns both dictionaries, the receiver updated and the argument as it is
  left.
\<close>

definition dict_merge :: "Dictionary \<Rightarrow> Dictionary \<Rightarrow> Dictionary \<times> Dictionary" where
  "dict_merge this other = (fold (\<lambda>(k, v). dict_add k v) other this, other)"

text \<open>The invariant of the accumulator: no key occurs twice.\<close>

definition key_unique :: "Dictionary \<Rightarrow> bool" where
  "key_unique d = distinct (map fst d)"

subsection \<open>The queryable node\<close>

type_synonym SPBatch = nat

type_synonym FetchOptions = "string \<rightharpoonup> string"

record node =
  url :: string
  parentUrl :: string
  query :: Dictionary
  options :: FetchOptions
  batch :: "SPBatch option"
  useCaching :: bool
  cachingOptions :: "string option"

text \<open>
  Modelled from the spec: the base class \<^verbatim>\<open>ODataQueryable\<close> of @pnp/odata is not part
  of the source file. A node starts with empty strings, an empty accumulator, no
  options, no batch and caching off; \<^verbatim>\<open>toUrl\<close> is the composed resource URL;
  \<^verbatim>\<open>configure\<close> overlays options on the node's own; \<^verbatim>\<open>inBatch\<close> attaches the batch
  handle; \<^verbatim>\<open>hasBatch\<close> tells whether one is attached.
\<close>

definition ODataQueryable :: node where
  "ODataQueryable =
     \<lparr>url = [], parentUrl = [], query = [], options = Map.empty, batch = None,
      useCaching = False, cachingOptions = None\<rparr>"

definition toUrl :: "node \<Rightarrow> string" where
  "toUrl n = url n"

definition hasBatch :: "node \<Rightarrow> bool" where
  "hasBatch n = (batch n \<noteq> None)"

text \<open>
  Modelled from the spec: \<^verbatim>\<open>mergeOptions(target, source)\<close> of @pnp/common is not part
  of the source file. "The merge is a shallow overlay": every key of the source is
  written over the target.
\<close>

definition mergeOptions :: "FetchOptions \<Rightarrow> FetchOptions \<Rightarrow> FetchOptions" where
  "mergeOptions target source = target ++ source"

definition configure :: "FetchOptions \<Rightarrow> node \<Rightarrow> node" where
  "configure opts n = n\<lparr>options := mergeOptions (options n) opts\<rparr>"

definition inBatch :: "SPBatch \<Rightarrow> node \<Rightarrow> node" where
  "inBatch b n = n\<lparr>batch := Some b\<rparr>"

text \<open>
  Modelled from the spec: \<^verbatim>\<open>ODataQueryable.extend(parent, path)\<close> is not part of the
  source file. "The new node inherits that node's \<open>url\<close> as its own base, copies its
  \<open>query\<close>/\<open>options\<close> by value"; the batch association is "not silently inherited".
\<close>

definition ODataQueryable_extend :: "(string \<Rightarrow> string option \<Rightarrow> string) \<Rightarrow> node \<Rightarrow> node \<Rightarrow> string option \<Rightarrow> node" where
  "ODataQueryable_extend combine this parent path =
     this\<lparr>parentUrl := url parent,
          url := combine (url parent) path,
          query := query parent,
          options := options parent\<rparr>"

subsection \<open>SharePointQueryable: the constructor\<close>

text \<open>The first argument of the constructor: a string or a node.\<close>

datatype base = BaseString string | BaseNode node

text \<open>
  The branch of the constructor for a string: the parent URL is parsed out of the
  string. \<open>isAbs\<close> and \<open>combine\<close> stand for \<^verbatim>\<open>isUrlAbsolute\<close> and \<^verbatim>\<open>combinePaths\<close>.
\<close>

definition fromString :: "(string \<Rightarrow> bool) \<Rightarrow> (string \<Rightarrow> string option \<Rightarrow> string) \<Rightarrow> string \<Rightarrow> string option \<Rightarrow> node" where
  "fromString isAbs combine baseUrl path =
     (if isAbs baseUrl \<or> lastIndexOf baseUrl (CHR ''/'') < 0 then
        ODataQueryable\<lparr>parentUrl := baseUrl, url := combine baseUrl path\<rparr>
      else if lastIndexOf baseUrl (CHR ''/'') > lastIndexOf baseUrl (CHR ''('') then
        (let index = lastIndexOf baseUrl (CHR ''/'');
             parent = slice baseUrl 0 (Some index);
             path' = combine (slice baseUrl index None) path
         in ODataQueryable\<lparr>parentUrl := parent, url := combine parent (Some path')\<rparr>)
      else
        (let index = lastIndexOf baseUrl (CHR ''('')
         in ODataQueryable\<lparr>parentUrl := slice baseUrl 0 (Some index),
                            url := combine baseUrl path\<rparr>))"

text \<open>
  The branch for a node: the new node extends the given one and takes over its
  \<open>@target\<close> entry.
\<close>

definition fromNode :: "(string \<Rightarrow> string option \<Rightarrow> string) \<Rightarrow> node \<Rightarrow> string option \<Rightarrow> node" where
  "fromNode combine baseUrl path =
     (let this = ODataQueryable_extend combine ODataQueryable baseUrl path
      in case dict_get (query baseUrl) ''@target'' of
           None \<Rightarrow> this
         | Some target \<Rightarrow> this\<lparr>query := dict_add ''@target'' target (query this)\<rparr>)"

definition SharePointQueryable :: "(string \<Rightarrow> bool) \<Rightarrow> (string \<Rightarrow> string option \<Rightarrow> string) \<Rightarrow> base \<Rightarrow> string option \<Rightarrow> node" where
  "SharePointQueryable isAbs combine baseUrl path =
     (case baseUrl of
        BaseString s \<Rightarrow> fromString isAbs combine s path
      | BaseNode n \<Rightarrow> fromNode combine n path)"

subsection \<open>The aliased-parameter pattern\<close>

text \<open>
  The regular expression \<^verbatim>\<open>/'!(@.*?)::(.*?)'/ig\<close> of \<^verbatim>\<open>toUrlAndQuery\<close>, as the
  backtracking matcher runs it. A dot matches any character but a line terminator
  (of the 8-bit characters: line feed and carriage return). The flag \<open>i\<close> changes
  nothing: the pattern has no letter.
\<close>

definition isLineTerminator :: "char \<Rightarrow> bool" where
  "isLineTerminator c = (c = CHR 0x0A \<or> c = CHR 0x0D)"

text \<open>
  \<^verbatim>\<open>(.*?)'\<close>: the lazy group takes the fewest characters that let the closing quote
  match, so it stops at the first quote; it fails at a line terminator or at the end of
  the input. The result is the captured value and the input after the quote.
\<close>

fun lazyValue :: "string \<Rightarrow> (string \<times> string) option" where
  "lazyValue [] = None"
| "lazyValue (c # cs) =
     (if c = CHR 0x27 then Some ([], cs)
      else if isLineTerminator c then None
      else (case lazyValue cs of
              None \<Rightarrow> None
            | Some (v, r) \<Rightarrow> Some (c # v, r)))"

text \<open>
  \<^verbatim>\<open>::(.*?)'\<close> at the head of the input: the value and the rest, when it matches.
\<close>

definition afterLabel :: "string \<Rightarrow> (string \<times> string) option" where
  "afterLabel s =
     (case s of
        a # b # r \<Rightarrow> if a = CHR '':'' \<and> b = CHR '':'' then lazyValue r else None
      | _ \<Rightarrow> None)"

text \<open>
  \<^verbatim>\<open>(.*?)::(.*?)'\<close>: the first lazy group is tried with no character, then with one
  more each time the rest of the pattern fails; it cannot grow over a line terminator
  or the end of the input. The result is what the first group took, the value and the
  rest.
\<close>

fun lazyLabel :: "string \<Rightarrow> (string \<times> string \<times> string) option" where
  "lazyLabel [] = None"
| "lazyLabel (c # cs) =
     (case afterLabel (c # cs) of
        Some (v, r) \<Rightarrow> Some ([], v, r)
      | None \<Rightarrow>
          if isLineTerminator c then None
          else (case lazyLabel cs of
                  None \<Rightarrow> None
                | Some (l, v, r) \<Rightarrow> Some (c # l, v, r)))"

text \<open>
  The whole pattern anchored at the head of the input: the two capture groups
  (\<open>labelName\<close> with its \<open>@\<close>, and \<open>value\<close>) and the input after the match.
\<close>

definition matchAlias :: "string \<Rightarrow> (string \<times> string \<times> string) option" where
  "matchAlias s =
     (case s of
        q # b # a # r \<Rightarrow>
          if q = CHR 0x27 \<and> b = CHR ''!'' \<and> a = CHR ''@'' then
            (case lazyLabel r of
               None \<Rightarrow> None
             | Some (l, v, r') \<Rightarrow> Some (CHR ''@'' # l, v, r'))
          else None
      | _ \<Rightarrow> None)"

text \<open>
  \<^verbatim>\<open>String.prototype.replace\<close> with the global pattern and the callback of
  \<^verbatim>\<open>toUrlAndQuery\<close>: the matches are found from left to right, each search starting
  where the last match ended; a match is replaced by its label. The result is the new
  string and the calls of the callback, in order, as pairs of label and value.
\<close>

function replaceAliases :: "string \<Rightarrow> string \<times> (string \<times> string) list" where
  "replaceAliases s =
     (case matchAlias s of
        Some (labelName, val, r) \<Rightarrow>
          (let (body, calls) = replaceAliases r
           in (labelName @ body, (labelName, val) # calls))
      | None \<Rightarrow>
          (case s of
             [] \<Rightarrow> ([], [])
           | c # cs \<Rightarrow>
               (let (body, calls) = replaceAliases cs
                in (c # body, calls))))"
  by pat_completeness auto
termination
proof (relation "measure length")
  have val: "length r < length s" if "lazyValue s = Some (v, r)" for s v r
    using that
    by (induction s arbitrary: v r) (auto split: if_splits option.splits)
  have aft: "length r < length s" if "afterLabel s = Some (v, r)" for s v r
    using that val
    by (fastforce simp: afterLabel_def split: list.splits if_splits)
  have lab: "length r < length s" if "lazyLabel s = Some (l, v, r)" for s l v r
    using that
  proof (induction s arbitrary: l v r)
    case Nil
    then show ?case by simp
  next
    case (Cons c cs)
    show ?case
    proof (cases "afterLabel (c # cs)")
      case None
      with Cons.prems obtain l' where "lazyLabel cs = Some (l', v, r)"
        by (auto split: if_splits option.splits)
      from Cons.IH [OF this] show ?thesis by simp
    next
      case (Some p)
      with Cons.prems have "afterLabel (c # cs) = Some (v, r)"
        by (cases p) simp
      from aft [OF this] show ?thesis .
    qed
  qed
  show "wf (measure length)" by simp
  show "(r, s) \<in> measure length"
    if "matchAlias s = Some p" and "(labelName, q) = p" and "(val, r) = q"
    for s p labelName q val r
  proof -
    from that have "matchAlias s = Some (labelName, val, r)" by simp
    then obtain a b c t l where "s = a # b # c # t" and "lazyLabel t = Some (l, val, r)"
      by (auto simp: matchAlias_def split: list.splits if_splits option.splits)
    with lab [of t l val r] show ?thesis by simp
  qed
  show "(cs, s) \<in> measure length" if "s = c # cs" for s :: string and c cs
    using that by simp
qed

declare replaceAliases.simps [simp del]

subsection \<open>SharePointQueryable: the methods\<close>

text \<open>
  Modelled from the spec: \<^verbatim>\<open>extend(target, source, flag)\<close> of @pnp/common is
  not part of the source file, and neither is the meaning of its third argument. \<^verbatim>\<open>as\<close> is there "to reinterpret the current URL/query
  state as a different resource type", "taking a URL+query-state snapshot": the
  object returned has the state of the source.
\<close>

definition extend_object :: "node \<Rightarrow> node \<Rightarrow> bool \<Rightarrow> node" where
  "extend_object target source flag = source"

text \<open>
  \<^verbatim>\<open>as(factory)\<close>. The factory is a constructor of the shape
  \<^verbatim>\<open>new(baseUrl, path)\<close>; it is the constructor of the base class here.
\<close>

definition as_cast :: "(string \<Rightarrow> bool) \<Rightarrow> (string \<Rightarrow> string option \<Rightarrow> string) \<Rightarrow> node \<Rightarrow> node" where
  "as_cast isAbs combine this =
     (let o' = SharePointQueryable isAbs combine (BaseString (url this)) None
      in extend_object o' this True)"

text \<open>
  \<^verbatim>\<open>toUrlAndQuery\<close>, with the node it leaves behind: the only access to the node's
  accumulator is as the argument of \<^verbatim>\<open>merge\<close>. A key of \<open>getKeys\<close> always has a
  value; a \<^verbatim>\<open>null\<close> would print as \<open>null\<close> in the template. The call of the logger is
  left out.
\<close>

definition toUrlAndQuery_run :: "node \<Rightarrow> string \<times> node" where
  "toUrlAndQuery_run this =
     (let (url', calls) = replaceAliases (toUrl this);
          aliasedParams =
            fold (\<lambda>(labelName, val). dict_add labelName ([CHR 0x27] @ val @ [CHR 0x27]))
              calls [];
          (aliasedParams', query') = dict_merge aliasedParams (query this);
          this' = this\<lparr>query := query'\<rparr>
      in (if dict_count aliasedParams' > 0 then
            url' @ ''?'' @
              join ''&''
                (map (\<lambda>key. key @ ''='' @
                        (case dict_get aliasedParams' key of
                           None \<Rightarrow> ''null''
                         | Some v \<Rightarrow> v))
                   (dict_getKeys aliasedParams'))
          else url',
          this'))"

definition toUrlAndQuery :: "node \<Rightarrow> string" where
  "toUrlAndQuery this = fst (toUrlAndQuery_run this)"

text \<open>
  \<^verbatim>\<open>getParent(factory, baseUrl = this.parentUrl, path, batch)\<close>: an absent \<open>baseUrl\<close>
  is the node's parent URL.
\<close>

definition getParent :: "(string \<Rightarrow> bool) \<Rightarrow> (string \<Rightarrow> string option \<Rightarrow> string) \<Rightarrow> node \<Rightarrow> base option \<Rightarrow> string option \<Rightarrow> SPBatch option \<Rightarrow> node" where
  "getParent isAbs combine this baseUrl path batch' =
     (let b = (case baseUrl of None \<Rightarrow> BaseString (parentUrl this) | Some b' \<Rightarrow> b');
          parent0 = SharePointQueryable isAbs combine b path;
          parent1 = configure (options this) parent0;
          parent2 = (case dict_get (query this) ''@target'' of
                       None \<Rightarrow> parent1
                     | Some target \<Rightarrow>
                         parent1\<lparr>query := dict_add ''@target'' target (query parent1)\<rparr>)
      in case batch' of None \<Rightarrow> parent2 | Some bt \<Rightarrow> inBatch bt parent2)"

text \<open>
  \<^verbatim>\<open>clone(factory, additionalPath, includeBatch = true)\<close>.
\<close>

definition clone :: "(string \<Rightarrow> bool) \<Rightarrow> (string \<Rightarrow> string option \<Rightarrow> string) \<Rightarrow> node \<Rightarrow> string option \<Rightarrow> bool option \<Rightarrow> node" where
  "clone isAbs combine this additionalPath includeBatch =
     (let clone0 = SharePointQueryable isAbs combine (BaseNode this) additionalPath;
          clone1 = configure (options this) clone0;
          clone2 = (case dict_get (query this) ''@target'' of
                      None \<Rightarrow> clone1
                    | Some target \<Rightarrow>
                        clone1\<lparr>query := dict_add ''@target'' target (query clone1)\<rparr>)
      in if (case includeBatch of None \<Rightarrow> True | Some i \<Rightarrow> i) \<and> hasBatch this then
           (case batch this of None \<Rightarrow> clone2 | Some bt \<Rightarrow> inBatch bt clone2)
         else clone2)"

subsection \<open>SharePointQueryable: the request context\<close>

text \<open>
  The calls \<^verbatim>\<open>toRequestContext\<close> makes to its collaborators are recorded in a trace,
  in the order they are made.
\<close>

datatype event = AddBatchDependency SPBatch | ToAbsoluteUrl string | GetGUID

text \<open>
  The release callback of a descriptor: the function that does nothing, or the one a
  registration with a batch returned. Two registrations return two callbacks: the
  second component numbers the registrations of the trace.
\<close>

datatype release = NoOp | BatchRelease SPBatch nat

datatype clientFactory = NewSPHttpClient

datatype error = ResolutionFailure string

record ('p, 'l) RequestContext =
  ctx_batch :: "SPBatch option"
  batchDependency :: release
  ctx_cachingOptions :: "string option"
  clientFactory :: clientFactory
  isBatched :: bool
  isCached :: bool
  ctx_options :: FetchOptions
  parser :: 'p
  pipeline :: 'l
  requestAbsoluteUrl :: string
  requestId :: string
  verb :: string

text \<open>
  Modelled from the spec: \<^verbatim>\<open>ODataQueryable.addBatchDependency\<close> is not part of the
  source file. "Batch: \<open>registerDependency() -> releaseFn\<close>": the call registers a
  dependency with the node's batch and returns the release callback of that
  registration.
\<close>

definition registrations :: "event list \<Rightarrow> nat" where
  "registrations tr = length (filter (\<lambda>e. case e of AddBatchDependency _ \<Rightarrow> True | _ \<Rightarrow> False) tr)"

definition addBatchDependency :: "node \<Rightarrow> event list \<Rightarrow> release \<times> event list" where
  "addBatchDependency this tr =
     (case batch this of
        None \<Rightarrow> (NoOp, tr)
      | Some b \<Rightarrow> (BatchRelease b (registrations tr), tr @ [AddBatchDependency b]))"

text \<open>
  The test \<^verbatim>\<open>/^get$/i.test(verb)\<close>: the whole input is one of \<open>g\<close>, \<open>G\<close>, then one of
  \<open>e\<close>, \<open>E\<close>, then one of \<open>t\<close>, \<open>T\<close>.
\<close>

definition test_get :: "string \<Rightarrow> bool" where
  "test_get v =
     (case v of
        [a, b, c] \<Rightarrow>
          (a = CHR ''g'' \<or> a = CHR ''G'') \<and> (b = CHR ''e'' \<or> b = CHR ''E'') \<and>
          (c = CHR ''t'' \<or> c = CHR ''T'')
      | _ \<Rightarrow> False)"

text \<open>
  \<^verbatim>\<open>toRequestContext(verb, options = {}, parser, pipeline)\<close>. \<open>toAbsoluteUrl\<close> is the
  resolver of absolute URLs, which may reject; \<open>guid\<close> is what \<^verbatim>\<open>getGUID()\<close> returns.
  The promise is its outcome: \<open>Inl\<close> when the resolution rejects, \<open>Inr\<close> the descriptor
  when it resolves. The trace is the one before the call, extended by the calls made.
  The callback of \<^verbatim>\<open>then\<close> reads the node as \<^verbatim>\<open>toUrlAndQuery\<close> left it.
\<close>

definition toRequestContext :: "(string \<Rightarrow> error + string) \<Rightarrow> string \<Rightarrow> node \<Rightarrow> string \<Rightarrow> FetchOptions option \<Rightarrow> 'p \<Rightarrow> 'l \<Rightarrow> event list \<Rightarrow> (error + ('p, 'l) RequestContext) \<times> event list" where
  "toRequestContext toAbsoluteUrl guid this verb' opts parser' pipeline' tr =
     (let (dependencyDispose, tr1) =
            (if hasBatch this then addBatchDependency this tr else (NoOp, tr));
          (s, this') = toUrlAndQuery_run this;
          tr2 = tr1 @ [ToAbsoluteUrl s]
      in case toAbsoluteUrl s of
           Inl e \<Rightarrow> (Inl e, tr2)
         | Inr url' \<Rightarrow>
             (let options' =
                    mergeOptions (case opts of None \<Rightarrow> Map.empty | Some os \<Rightarrow> os)
                      (options this');
                  context =
                    \<lparr>ctx_batch = batch this',
                     batchDependency = dependencyDispose,
                     ctx_cachingOptions = cachingOptions this',
                     clientFactory = NewSPHttpClient,
                     isBatched = hasBatch this',
                     isCached = (test_get verb' \<and> useCaching this'),
                     ctx_options = options',
                     parser = parser',
                     pipeline = pipeline',
                     requestAbsoluteUrl = url',
                     requestId = guid,
                     verb = verb'\<rparr>
              in (Inr context, tr2 @ [GetGUID])))"

subsection \<open>SharePointQueryableCollection and SharePointQueryableInstance\<close>

text \<open>
  The fluent methods change the accumulator of the node and return the node. A rest
  parameter is the list of its arguments. \<^verbatim>\<open>skip\<close> and \<^verbatim>\<open>top\<close> print a number and
  are not part of this development.
\<close>

definition Collection_filter :: "string \<Rightarrow> node \<Rightarrow> node" where
  "Collection_filter f this = this\<lparr>query := dict_add ''$filter'' f (query this)\<rparr>"

definition Collection_select :: "string list \<Rightarrow> node \<Rightarrow> node" where
  "Collection_select selects this =
     (if length selects > 0 then
        this\<lparr>query := dict_add ''$select'' (join '','' selects) (query this)\<rparr>
      else this)"

definition Collection_expand :: "string list \<Rightarrow> node \<Rightarrow> node" where
  "Collection_expand expands this =
     (if length expands > 0 then
        this\<lparr>query := dict_add ''$expand'' (join '','' expands) (query this)\<rparr>
      else this)"

text \<open>
  \<^verbatim>\<open>orderBy(orderBy, ascending = true)\<close>: the values of the keys equal to \<open>$orderby\<close>,
  then the new clause, joined by commas (\<^verbatim>\<open>join\<close> prints a \<^verbatim>\<open>null\<close> as the empty
  string).
\<close>

definition Collection_orderBy :: "string \<Rightarrow> bool option \<Rightarrow> node \<Rightarrow> node" where
  "Collection_orderBy orderBy ascending this =
     (let query0 = map (\<lambda>k. dict_get (query this) k)
                     (filter (\<lambda>k. k = ''$orderby'') (dict_getKeys (query this)));
          query1 = query0 @
                     [Some (orderBy @ '' '' @
                        (if (case ascending of None \<Rightarrow> True | Some a \<Rightarrow> a)
                         then ''asc'' else ''desc''))]
      in this\<lparr>query :=
           dict_add ''$orderby''
             (join '','' (map (\<lambda>x. case x of None \<Rightarrow> [] | Some v \<Rightarrow> v) query1))
             (query this)\<rparr>)"

definition Instance_select :: "string list \<Rightarrow> node \<Rightarrow> node" where
  "Instance_select selects this =
     (if length selects > 0 then
        this\<lparr>query := dict_add ''$select'' (join '','' selects) (query this)\<rparr>
      else this)"

definition Instance_expand :: "string list \<Rightarrow> node \<Rightarrow> node" where
  "Instance_expand expands this =
     (if length expands > 0 then
        this\<lparr>query := dict_add ''$expand'' (join '','' expands) (query this)\<rparr>
      else this)"

subsection \<open>Notions the properties are stated with\<close>

text \<open>
  Equality of verbs without regard to case is equality after every letter \<open>a\<close> to \<open>z\<close>
  has been replaced by its capital.
\<close>

definition toUpperCase :: "char \<Rightarrow> char" where
  "toUpperCase c =
     (case map_of (zip ''abcdefghijklmnopqrstuvwxyz'' ''ABCDEFGHIJKLMNOPQRSTUVWXYZ'') c of
        None \<Rightarrow> c
      | Some u \<Rightarrow> u)"

text \<open>
  A composed URL seen as a sequence of parts: plain text, and tokens
  \<open>'!@label::value'\<close>. \<open>render\<close> is the text of the URL, \<open>rewritten\<close> the same with every
  token replaced by its bare label \<open>@label\<close>, \<open>aliases\<close> the labels with their values in
  order of occurrence.
\<close>

datatype part = Plain string | Alias string string

fun render :: "part list \<Rightarrow> string" where
  "render [] = []"
| "render (Plain s # ps) = s @ render ps"
| "render (Alias l v # ps) =
     [CHR 0x27] @ ''!@'' @ l @ ''::'' @ v @ [CHR 0x27] @ render ps"

fun rewritten :: "part list \<Rightarrow> string" where
  "rewritten [] = []"
| "rewritten (Plain s # ps) = s @ rewritten ps"
| "rewritten (Alias l v # ps) = ''@'' @ l @ rewritten ps"

fun aliases :: "part list \<Rightarrow> (string \<times> string) list" where
  "aliases [] = []"
| "aliases (Plain s # ps) = aliases ps"
| "aliases (Alias l v # ps) = (''@'' @ l, v) # aliases ps"

text \<open>
  The reading of a composed URL that the properties are stated for. A token
  \<open>'!@label::value'\<close> lies on one line: neither its label nor its value has a line
  terminator. Its label runs to the first \<open>::\<close>: the separator does not occur in the
  label, nor across its end. Its value runs to the first single quote: it has none.
\<close>

definition oneLine :: "string \<Rightarrow> bool" where
  "oneLine s = (\<forall>c \<in> set s. \<not> isLineTerminator c)"

fun hasSeparator :: "string \<Rightarrow> bool" where
  "hasSeparator (a # b # r) = ((a = CHR '':'' \<and> b = CHR '':'') \<or> hasSeparator (b # r))"
| "hasSeparator _ = False"

text \<open>
  A token starts at the head of a text when the text opens with \<open>'!@\<close> and goes on, on
  the same line, with a \<open>::\<close> and later a single quote: \<open>closes\<close> finds the quote
  before any line terminator, \<open>separated\<close> the \<open>::\<close> with a quote after it.
\<close>

fun closes :: "string \<Rightarrow> bool" where
  "closes [] = False"
| "closes (c # cs) = (c = CHR 0x27 \<or> (\<not> isLineTerminator c \<and> closes cs))"

fun separated :: "string \<Rightarrow> bool" where
  "separated [] = False"
| "separated (c # cs) =
     ((c = CHR '':'' \<and> (case cs of [] \<Rightarrow> False | d # r \<Rightarrow> d = CHR '':'' \<and> closes r)) \<or>
      (\<not> isLineTerminator c \<and> separated cs))"

definition startsToken :: "string \<Rightarrow> bool" where
  "startsToken s =
     (case s of
        q # b # a # r \<Rightarrow> q = CHR 0x27 \<and> b = CHR ''!'' \<and> a = CHR ''@'' \<and> separated r
      | _ \<Rightarrow> False)"

text \<open>
  Tokens are taken from left to right, the leftmost first: in a well-formed sequence
  of parts no token starts inside a plain text, whatever follows it.
\<close>

fun tokenFree :: "string \<Rightarrow> string \<Rightarrow> bool" where
  "tokenFree [] rest = True"
| "tokenFree (c # cs) rest = (\<not> startsToken (c # cs @ rest) \<and> tokenFree cs rest)"

fun wellFormed :: "part list \<Rightarrow> bool" where
  "wellFormed [] = True"
| "wellFormed (Plain s # ps) = (tokenFree s (render ps) \<and> wellFormed ps)"
| "wellFormed (Alias l v # ps) =
     (oneLine l \<and> \<not> hasSeparator (l @ '':'') \<and> oneLine v \<and> CHR 0x27 \<notin> set v \<and>
      wellFormed ps)"

text \<open>
  The query string of a dictionary: nothing when it is empty, otherwise a \<open>?\<close> and the
  pairs \<open>key=value\<close> joined by \<open>&\<close> in the order of the dictionary. \<open>registered\<close> is
  the dictionary the labels are registered in, each value wrapped in single quotes.
\<close>

definition queryString :: "Dictionary \<Rightarrow> string" where
  "queryString d =
     (if d = [] then [] else ''?'' @ join ''&'' (map (\<lambda>(k, v). k @ ''='' @ v) d))"

definition registered :: "(string \<times> string) list \<Rightarrow> Dictionary" where
  "registered calls = fold (\<lambda>(l, v). dict_add l ([CHR 0x27] @ v @ [CHR 0x27])) calls []"

subsection \<open>A node and a resolver for concrete inputs\<close>

definition items_node :: node where
  "items_node =
     ODataQueryable\<lparr>url := ''_api/web/lists/items'', parentUrl := ''_api/web/lists'',
       query := [(''$top'', ''5'')],
       options := [''credentials'' \<mapsto> ''same-origin'', ''mode'' \<mapsto> ''cors''],
       batch := Some 7, useCaching := True\<rparr>"

definition resolve_on_contoso :: "string \<Rightarrow> error + string" where
  "resolve_on_contoso s = Inr (''https://contoso.com/'' @ s)"

definition filtered_items :: node where
  "filtered_items =
     ODataQueryable\<lparr>url := ''_api/web/lists('a')/items('!@p1::Some long value')/x('!@p2::y')'',
       query := [(''$select'', ''Title,Id''), (''@p2'', ''7'')]\<rparr>"

definition filtered_items_parts :: "part list" where
  "filtered_items_parts =
     [Plain ''_api/web/lists('a')/items('', Alias ''p1'' ''Some long value'',
      Plain '')/x('', Alias ''p2'' ''y'', Plain '')'']"

definition two_line_item :: node where
  "two_line_item =
     ODataQueryable\<lparr>url := ''_api/web/lists('!@p1::a'' @ [CHR 0x0A] @ ''b')''\<rparr>"

definition two_line_item_parts :: "part list" where
  "two_line_item_parts =
     [Plain ''_api/web/lists('', Alias ''p1'' (''a'' @ [CHR 0x0A] @ ''b''), Plain '')'']"

definition quoted_value_item :: node where
  "quoted_value_item = ODataQueryable\<lparr>url := ''_api/web/lists('!@p::O'Brien')''\<rparr>"

definition quoted_value_item_parts :: "part list" where
  "quoted_value_item_parts = [Plain ''_api/web/lists('', Alias ''p'' ''O'Brien'', Plain '')'']"

definition quoted_value_item_reading :: "part list" where
  "quoted_value_item_reading =
     [Plain ''_api/web/lists('', Alias ''p'' ''O'', Plain (''Brien'' @ [CHR 0x27] @ '')'')]"

definition separator_in_label_item :: node where
  "separator_in_label_item = ODataQueryable\<lparr>url := ''_api/web/lists('!@a::b::v')''\<rparr>"

definition separator_in_label_item_parts :: "part list" where
  "separator_in_label_item_parts =
     [Plain ''_api/web/lists('', Alias ''a::b'' ''v'', Plain '')'']"

definition token_in_text_item :: node where
  "token_in_text_item = ODataQueryable\<lparr>url := ''_api/f('!@x)/g('!@p::v')''\<rparr>"

definition token_in_text_item_parts :: "part list" where
  "token_in_text_item_parts = [Plain ''_api/f('!@x)/g('', Alias ''p'' ''v'', Plain '')'']"

definition colon_in_label_item :: node where
  "colon_in_label_item = ODataQueryable\<lparr>url := ''_api/f('!@a:b::v')''\<rparr>"

definition colon_in_label_item_parts :: "part list" where
  "colon_in_label_item_parts = [Plain ''_api/f('', Alias ''a:b'' ''v'', Plain '')'']"

section \<open>Properties\<close>

subsection \<open>Fluent calls without arguments\<close>

text \<open>
  Claim C10. Calling \<^verbatim>\<open>select()\<close> or \<^verbatim>\<open>expand()\<close> with no argument leaves the query
  accumulator as it is (no \<open>$select\<close> or \<open>$expand\<close> key is added or overwritten) and
  returns the same node, on a collection and on a single instance.
\<close>

theorem select_expand_without_arguments:
  "Collection_select [] n = n \<and> Collection_expand [] n = n \<and>
   Instance_select [] n = n \<and> Instance_expand [] n = n \<and>
   query (Collection_select [] n) = query n \<and> query (Collection_expand [] n) = query n \<and>
   query (Instance_select [] n) = query n \<and> query (Instance_expand [] n) = query n"
  by (simp add: Collection_select_def Collection_expand_def Instance_select_def
      Instance_expand_def)

subsection \<open>Serialization leaves the node alone\<close>

lemma toUrlAndQuery_run_node: "snd (toUrlAndQuery_run n) = n"
  by (simp add: toUrlAndQuery_run_def dict_merge_def Let_def split: prod.splits)

text \<open>
  Claim C9. Calling \<^verbatim>\<open>toUrlAndQuery()\<close> twice with no fluent call in between returns
  the same string twice, and a call leaves the query accumulator of the node (keys,
  values and order) unchanged.
\<close>

theorem toUrlAndQuery_idempotent:
  "fst (toUrlAndQuery_run (snd (toUrlAndQuery_run n))) = fst (toUrlAndQuery_run n) \<and>
   toUrlAndQuery (snd (toUrlAndQuery_run n)) = toUrlAndQuery n \<and>
   query (snd (toUrlAndQuery_run n)) = query n \<and>
   snd (toUrlAndQuery_run n) = n"
  by (simp add: toUrlAndQuery_run_node toUrlAndQuery_def)

subsection \<open>The constructor on a string\<close>

text \<open>
  \<open>lastIndexOf\<close> is the position of the last occurrence, and \<open>slice\<close> cuts the string
  there.
\<close>

lemma lastIndexOf_from_absent: "c \<notin> set s \<Longrightarrow> lastIndexOf_from c s i found = found"
  by (induction s arbitrary: i found) auto

lemma lastIndexOf_from_last:
  "c \<notin> set t \<Longrightarrow> lastIndexOf_from c (p @ c # t) i found = i + int (length p)"
  by (induction p arbitrary: i found) (auto simp: lastIndexOf_from_absent)

lemma lastIndexOf_absent: "c \<notin> set s \<Longrightarrow> lastIndexOf s c = - 1"
  by (simp add: lastIndexOf_def lastIndexOf_from_absent)

lemma lastIndexOf_last: "c \<notin> set t \<Longrightarrow> lastIndexOf (p @ c # t) c = int (length p)"
  by (simp add: lastIndexOf_def lastIndexOf_from_last)

lemma lastIndexOf_present: "c \<in> set s \<Longrightarrow> 0 \<le> lastIndexOf s c"
proof -
  assume "c \<in> set s"
  then obtain p t where "s = p @ c # t" and "c \<notin> set t"
    by (meson split_list_last)
  then show ?thesis by (simp add: lastIndexOf_last)
qed

lemma last_occurrence_exists: "c \<in> set s \<Longrightarrow> \<exists>p t. s = p @ c # t \<and> c \<notin> set t"
  by (meson split_list_last)

lemma slice_prefix: "slice (p @ t) 0 (Some (int (length p))) = p"
  by (simp add: slice_def Let_def)

lemma slice_suffix: "slice (p @ t) (int (length p)) None = t"
  by (simp add: slice_def Let_def)

text \<open>
  With the combination modelled from the spec, it makes no difference whether the
  trailing segment starts at the last separator or after it, when it is not empty.
\<close>

lemma dropSeps_no_separator: "CHR ''/'' \<notin> set s \<Longrightarrow> dropSeps s = s"
  by (cases s) auto

lemma trailing_separator_irrelevant:
  assumes "t \<noteq> []" and "CHR ''/'' \<notin> set t"
  shows "combinePaths p (Some (combinePaths (CHR ''/'' # t) path))
       = combinePaths p (Some (combinePaths t path))"
proof -
  have keep: "rev (dropSeps (rev (CHR ''/'' # t))) = CHR ''/'' # t"
    using assms by (cases "rev t") (auto simp: rev_eq_Cons_iff)
  have keep': "rev (dropSeps (rev t)) = t"
    using assms(2) by (simp add: dropSeps_no_separator)
  obtain c cs where t: "t = c # cs" and c: "c \<noteq> CHR ''/''"
    using assms by (cases t) auto
  show ?thesis
  proof (cases path)
    case None
    with t c show ?thesis by (simp add: combinePaths_def)
  next
    case (Some q)
    show ?thesis
    proof (cases "q = []")
      case True
      with Some t c show ?thesis by (simp add: combinePaths_def)
    next
      case False
      with Some keep keep' t c show ?thesis by (simp add: combinePaths_def)
    qed
  qed
qed

text \<open>
  Claim C2. For every base string \<open>b\<close> that is an absolute URL or contains no path
  separator \<open>/\<close> at all, and every optional suffix \<open>p\<close>, the node constructed from
  \<open>(b, p)\<close> has \<open>parentUrl\<close> equal to \<open>b\<close> and \<open>url\<close> equal to \<open>combine(b, p)\<close>,
  whatever the test of absoluteness and the combining function are.
\<close>

theorem constructor_absolute_or_bare:
  assumes "isAbs b \<or> CHR ''/'' \<notin> set b"
  shows "parentUrl (SharePointQueryable isAbs combine (BaseString b) p) = b \<and>
         url (SharePointQueryable isAbs combine (BaseString b) p) = combine b p"
  using assms
  by (auto simp: SharePointQueryable_def fromString_def ODataQueryable_def lastIndexOf_absent)

theorem constructor_absolute_or_bare_witness:
  "(isUrlAbsolute ''https://contoso.com/_api/web'' \<or> CHR ''/'' \<notin> set ''https://contoso.com/_api/web'') \<and>
   parentUrl (SharePointQueryable isUrlAbsolute combinePaths (BaseString ''https://contoso.com/_api/web'') (Some ''lists''))
     = ''https://contoso.com/_api/web'' \<and>
   url (SharePointQueryable isUrlAbsolute combinePaths (BaseString ''https://contoso.com/_api/web'') (Some ''lists''))
     = ''https://contoso.com/_api/web/lists'' \<and>
   (isUrlAbsolute ''web'' \<or> CHR ''/'' \<notin> set ''web'') \<and>
   parentUrl (SharePointQueryable isUrlAbsolute combinePaths (BaseString ''web'') None) = ''web'' \<and>
   url (SharePointQueryable isUrlAbsolute combinePaths (BaseString ''web'') None) = ''web''"
proof -
  have a: "isUrlAbsolute ''https://contoso.com/_api/web'' \<or> CHR ''/'' \<notin> set ''https://contoso.com/_api/web''"
    by (simp add: isUrlAbsolute_def)
  have b: "isUrlAbsolute ''web'' \<or> CHR ''/'' \<notin> set ''web''"
    by simp
  show ?thesis
    using a b
      constructor_absolute_or_bare
        [of isUrlAbsolute "''https://contoso.com/_api/web''" combinePaths "Some ''lists''"]
      constructor_absolute_or_bare [of isUrlAbsolute "''web''" combinePaths None]
    by (simp add: combinePaths_def)
qed

text \<open>
  Claim C1. For every base string that is not absolute and contains a separator \<open>/\<close>,
  written as \<open>p\<close>, its last \<open>/\<close>, and \<open>t\<close> after it: if the last \<open>/\<close> comes after the
  last \<open>(\<close> (there is no \<open>(\<close> in \<open>t\<close>), then \<open>parentUrl\<close> is the prefix \<open>p\<close> before the
  last \<open>/\<close> and \<open>url\<close> is \<open>combine(parentUrl, combine(trailing, path))\<close>, the trailing
  segment being the base from its last \<open>/\<close> on, as \<^verbatim>\<open>baseUrl.slice(index)\<close> cuts it;
  otherwise (the last \<open>(\<close> is in \<open>t\<close>) \<open>parentUrl\<close> is the prefix of the base before the
  last \<open>(\<close> and \<open>url\<close> is \<open>combine(base, path)\<close>, the indexer kept.
\<close>

theorem constructor_relative_with_separator:
  assumes "\<not> isAbs b" and "b = p @ CHR ''/'' # t" and "CHR ''/'' \<notin> set t"
  shows "(CHR ''('' \<notin> set t \<longrightarrow>
            parentUrl (SharePointQueryable isAbs combine (BaseString b) path) = p \<and>
            url (SharePointQueryable isAbs combine (BaseString b) path)
              = combine p (Some (combine (CHR ''/'' # t) path))) \<and>
         (\<forall>r s. t = r @ CHR ''('' # s \<and> CHR ''('' \<notin> set s \<longrightarrow>
            parentUrl (SharePointQueryable isAbs combine (BaseString b) path) = p @ CHR ''/'' # r \<and>
            url (SharePointQueryable isAbs combine (BaseString b) path) = combine b path)"
proof (intro conjI impI allI)
  have sep: "lastIndexOf b (CHR ''/'') = int (length p)"
    using assms by (simp add: lastIndexOf_last)
  {
    assume no: "CHR ''('' \<notin> set t"
    have "lastIndexOf b (CHR ''('') < int (length p)"
    proof (cases "CHR ''('' \<in> set p")
      case False
      with no assms have "CHR ''('' \<notin> set b" by simp
      then show ?thesis by (simp add: lastIndexOf_absent)
    next
      case True
      then obtain u v where p: "p = u @ CHR ''('' # v" and "CHR ''('' \<notin> set v"
        by (meson split_list_last)
      with no have "CHR ''('' \<notin> set (v @ CHR ''/'' # t)" by simp
      from lastIndexOf_last [OF this, of u] show ?thesis
        using assms p by simp
    qed
    with sep assms(1)
    have n: "SharePointQueryable isAbs combine (BaseString b) path =
        ODataQueryable\<lparr>parentUrl := slice b 0 (Some (int (length p))),
          url := combine (slice b 0 (Some (int (length p))))
                   (Some (combine (slice b (int (length p)) None) path))\<rparr>"
      by (simp add: SharePointQueryable_def fromString_def Let_def)
    have s1: "slice b 0 (Some (int (length p))) = p"
      using assms(2) slice_prefix [of p "CHR ''/'' # t"] by simp
    have s2: "slice b (int (length p)) None = CHR ''/'' # t"
      using assms(2) slice_suffix [of p "CHR ''/'' # t"] by simp
    show "parentUrl (SharePointQueryable isAbs combine (BaseString b) path) = p"
      by (simp add: n s1)
    show "url (SharePointQueryable isAbs combine (BaseString b) path)
              = combine p (Some (combine (CHR ''/'' # t) path))"
      by (simp add: n s1 s2)
  }
  fix r s
  assume "t = r @ CHR ''('' # s \<and> CHR ''('' \<notin> set s"
  then have t: "t = r @ CHR ''('' # s" and s: "CHR ''('' \<notin> set s" by simp_all
  have b: "b = (p @ CHR ''/'' # r) @ CHR ''('' # s"
    using assms(2) t by simp
  have par: "lastIndexOf b (CHR ''('') = int (length (p @ CHR ''/'' # r))"
    unfolding b using s by (rule lastIndexOf_last)
  with sep assms(1)
  have n: "SharePointQueryable isAbs combine (BaseString b) path =
      ODataQueryable\<lparr>parentUrl := slice b 0 (Some (int (length (p @ CHR ''/'' # r)))),
        url := combine b path\<rparr>"
    by (simp add: SharePointQueryable_def fromString_def Let_def)
  have s1: "slice b 0 (Some (int (length (p @ CHR ''/'' # r)))) = p @ CHR ''/'' # r"
    unfolding b by (rule slice_prefix)
  show "parentUrl (SharePointQueryable isAbs combine (BaseString b) path) = p @ CHR ''/'' # r"
    using s1 by (simp add: n)
  show "url (SharePointQueryable isAbs combine (BaseString b) path) = combine b path"
    by (simp add: n)
qed


theorem constructor_relative_with_separator_witness:
  "\<not> isUrlAbsolute ''_api/web/lists/items(19)/fields'' \<and>
   CHR ''/'' \<notin> set ''fields'' \<and> CHR ''('' \<notin> set ''fields'' \<and>
   parentUrl (SharePointQueryable isUrlAbsolute combinePaths
      (BaseString ''_api/web/lists/items(19)/fields'') None) = ''_api/web/lists/items(19)'' \<and>
   url (SharePointQueryable isUrlAbsolute combinePaths
      (BaseString ''_api/web/lists/items(19)/fields'') None) = ''_api/web/lists/items(19)/fields'' \<and>
   \<not> isUrlAbsolute ''_api/web/lists/items(19)'' \<and>
   CHR ''/'' \<notin> set ''items(19)'' \<and> CHR ''('' \<notin> set ''19)'' \<and>
   parentUrl (SharePointQueryable isUrlAbsolute combinePaths
      (BaseString ''_api/web/lists/items(19)'') (Some ''versions'')) = ''_api/web/lists/items'' \<and>
   url (SharePointQueryable isUrlAbsolute combinePaths
      (BaseString ''_api/web/lists/items(19)'') (Some ''versions''))
     = ''_api/web/lists/items(19)/versions''"
proof -
  have a: "\<not> isUrlAbsolute ''_api/web/lists/items(19)/fields''"
    by (simp add: isUrlAbsolute_def)
  have b: "\<not> isUrlAbsolute ''_api/web/lists/items(19)''"
    by (simp add: isUrlAbsolute_def)
  have a': "''_api/web/lists/items(19)/fields'' = ''_api/web/lists/items(19)'' @ CHR ''/'' # ''fields''"
    by simp
  have b': "''_api/web/lists/items(19)'' = ''_api/web/lists'' @ CHR ''/'' # ''items(19)''"
    by simp
  have a'': "CHR ''/'' \<notin> set ''fields''" by simp
  have b'': "CHR ''/'' \<notin> set ''items(19)''" by simp
  note first = constructor_relative_with_separator
      [of isUrlAbsolute "''_api/web/lists/items(19)/fields''" "''_api/web/lists/items(19)''"
        "''fields''" combinePaths None, OF a a' a'', THEN conjunct1]
  note second = constructor_relative_with_separator
      [of isUrlAbsolute "''_api/web/lists/items(19)''" "''_api/web/lists''" "''items(19)''"
        combinePaths "Some ''versions''", OF b b' b'', THEN conjunct2, rule_format,
        of "''items''" "''19)''"]
  from a b first second show ?thesis
    by (simp add: combinePaths_def)
qed

subsection \<open>The accumulator\<close>

lemma dict_get_add:
  "dict_get (dict_add k v d) k' = (if k' = k then Some v else dict_get d k')"
  by (induction d) (auto simp: dict_get_def)

lemma dict_getKeys_add:
  "dict_getKeys (dict_add k v d) =
     (if k \<in> set (dict_getKeys d) then dict_getKeys d else dict_getKeys d @ [k])"
  by (induction d) (force simp: dict_getKeys_def)+

lemma key_unique_add: "key_unique d \<Longrightarrow> key_unique (dict_add k v d)"
  using dict_getKeys_add [of k v d] by (simp add: key_unique_def dict_getKeys_def)

text \<open>
  Every accumulator the program builds is key-unique: the constructor, the fluent
  calls and the derivations keep the invariant.
\<close>

lemma key_unique_constructed:
  "(case b of BaseString s \<Rightarrow> True | BaseNode m \<Rightarrow> key_unique (query m)) \<Longrightarrow>
   key_unique (query (SharePointQueryable isAbs combine b p))"
  by (cases b)
    (auto simp: SharePointQueryable_def fromString_def fromNode_def ODataQueryable_extend_def
      ODataQueryable_def key_unique_add Let_def
      split: option.splits if_splits, simp_all add: key_unique_def)

lemma key_unique_fluent:
  assumes "key_unique (query n)"
  shows "key_unique (query (Collection_filter f n))"
    and "key_unique (query (Collection_select xs n))"
    and "key_unique (query (Collection_expand xs n))"
    and "key_unique (query (Collection_orderBy f asc n))"
    and "key_unique (query (Instance_select xs n))"
    and "key_unique (query (Instance_expand xs n))"
  using assms
  by (simp_all add: Collection_filter_def Collection_select_def Collection_expand_def
      Collection_orderBy_def Instance_select_def Instance_expand_def Let_def key_unique_add)

lemma key_unique_derived:
  assumes "key_unique (query n)"
    and "case b of Some (BaseNode m) \<Rightarrow> key_unique (query m) | _ \<Rightarrow> True"
  shows "key_unique (query (clone isAbs combine n p ib))"
    and "key_unique (query (getParent isAbs combine n b q bt))"
    and "key_unique (query (as_cast isAbs combine n))"
proof -
  have c: "key_unique (query (SharePointQueryable isAbs combine (BaseNode n) p))"
    using assms(1) by (simp add: key_unique_constructed)
  then show "key_unique (query (clone isAbs combine n p ib))"
    by (simp add: clone_def Let_def configure_def inBatch_def key_unique_add
        split: option.splits)
  have "key_unique (query (SharePointQueryable isAbs combine
      (case b of None \<Rightarrow> BaseString (parentUrl n) | Some b' \<Rightarrow> b') q))"
    using assms(2) by (intro key_unique_constructed) (auto split: option.splits base.splits)
  then show "key_unique (query (getParent isAbs combine n b q bt))"
    by (simp add: getParent_def Let_def configure_def inBatch_def key_unique_add
        split: option.splits)
  show "key_unique (query (as_cast isAbs combine n))"
    using assms(1) by (simp add: as_cast_def extend_object_def)
qed

subsection \<open>Derived nodes\<close>

text \<open>
  Claim C4. For every node whose query has an \<open>@target\<close> entry, every node derived from
  it, by \<^verbatim>\<open>clone\<close>, by \<^verbatim>\<open>getParent\<close> and by the cast \<^verbatim>\<open>as\<close>, has the \<open>@target\<close> entry
  with the same value in its query.
\<close>

theorem target_propagates:
  assumes "dict_get (query n) ''@target'' = Some t"
  shows "dict_get (query (clone isAbs combine n p ib)) ''@target'' = Some t \<and>
         dict_get (query (getParent isAbs combine n b q bt)) ''@target'' = Some t \<and>
         dict_get (query (as_cast isAbs combine n)) ''@target'' = Some t"
proof (intro conjI)
  show "dict_get (query (clone isAbs combine n p ib)) ''@target'' = Some t"
    using assms
    by (simp add: clone_def Let_def inBatch_def dict_get_add split: option.splits)
  show "dict_get (query (getParent isAbs combine n b q bt)) ''@target'' = Some t"
    using assms
    by (simp add: getParent_def Let_def inBatch_def dict_get_add split: option.splits)
  show "dict_get (query (as_cast isAbs combine n)) ''@target'' = Some t"
    using assms by (simp add: as_cast_def extend_object_def)
qed

theorem target_propagates_witness:
  "dict_get (query (ODataQueryable\<lparr>url := ''_api/web/lists'', parentUrl := ''_api/web'',
       query := [(''$top'', ''5''), (''@target'', ''https://contoso.com/sites/a'')],
       batch := Some 1\<rparr>)) ''@target'' = Some ''https://contoso.com/sites/a'' \<and>
   dict_get (query (clone isUrlAbsolute combinePaths
      (ODataQueryable\<lparr>url := ''_api/web/lists'', parentUrl := ''_api/web'',
         query := [(''$top'', ''5''), (''@target'', ''https://contoso.com/sites/a'')],
         batch := Some 1\<rparr>) (Some ''items'') None)) ''@target''
     = Some ''https://contoso.com/sites/a'' \<and>
   dict_get (query (getParent isUrlAbsolute combinePaths
      (ODataQueryable\<lparr>url := ''_api/web/lists'', parentUrl := ''_api/web'',
         query := [(''$top'', ''5''), (''@target'', ''https://contoso.com/sites/a'')],
         batch := Some 1\<rparr>) None None None)) ''@target''
     = Some ''https://contoso.com/sites/a'' \<and>
   dict_get (query (as_cast isUrlAbsolute combinePaths
      (ODataQueryable\<lparr>url := ''_api/web/lists'', parentUrl := ''_api/web'',
         query := [(''$top'', ''5''), (''@target'', ''https://contoso.com/sites/a'')],
         batch := Some 1\<rparr>))) ''@target''
     = Some ''https://contoso.com/sites/a''"
proof -
  have h: "dict_get (query (ODataQueryable\<lparr>url := ''_api/web/lists'', parentUrl := ''_api/web'',
       query := [(''$top'', ''5''), (''@target'', ''https://contoso.com/sites/a'')],
       batch := Some 1\<rparr>)) ''@target'' = Some ''https://contoso.com/sites/a''"
    by (simp add: dict_get_def)
  from h target_propagates [OF h, of isUrlAbsolute combinePaths "Some ''items''" None None None None]
  show ?thesis by simp
qed

subsection \<open>The request context\<close>

lemma toUpperCase_G: "toUpperCase c = CHR ''G'' \<longleftrightarrow> c = CHR ''g'' \<or> c = CHR ''G''"
  by (auto simp: toUpperCase_def split: if_splits)

lemma toUpperCase_E: "toUpperCase c = CHR ''E'' \<longleftrightarrow> c = CHR ''e'' \<or> c = CHR ''E''"
  by (auto simp: toUpperCase_def split: if_splits)

lemma toUpperCase_T: "toUpperCase c = CHR ''T'' \<longleftrightarrow> c = CHR ''t'' \<or> c = CHR ''T''"
  by (auto simp: toUpperCase_def split: if_splits)

lemma test_get_iff: "test_get v \<longleftrightarrow> map toUpperCase v = ''GET''"
proof (cases v)
  case Nil
  then show ?thesis by (simp add: test_get_def)
next
  case (Cons a v1)
  show ?thesis
  proof (cases v1)
    case Nil
    with Cons show ?thesis by (simp add: test_get_def)
  next
    case (Cons b v2)
    note v1 = this
    show ?thesis
    proof (cases v2)
      case Nil
      with \<open>v = a # v1\<close> v1 show ?thesis by (simp add: test_get_def)
    next
      case (Cons c v3)
      with \<open>v = a # v1\<close> v1 show ?thesis
        by (cases v3) (simp_all add: test_get_def toUpperCase_G toUpperCase_E toUpperCase_T)
    qed
  qed
qed

lemma toRequestContext_resolved:
  assumes "toAbsoluteUrl (toUrlAndQuery n) = Inr u"
  shows "toRequestContext toAbsoluteUrl guid n v opts ps pl tr =
    (Inr \<lparr>ctx_batch = batch n,
          batchDependency = (if hasBatch n then fst (addBatchDependency n tr) else NoOp),
          ctx_cachingOptions = cachingOptions n,
          clientFactory = NewSPHttpClient,
          isBatched = hasBatch n,
          isCached = (test_get v \<and> useCaching n),
          ctx_options = mergeOptions (case opts of None \<Rightarrow> Map.empty | Some os \<Rightarrow> os) (options n),
          parser = ps, pipeline = pl, requestAbsoluteUrl = u, requestId = guid, verb = v\<rparr>,
     (if hasBatch n then snd (addBatchDependency n tr) else tr)
       @ [ToAbsoluteUrl (toUrlAndQuery n), GetGUID])"
proof -
  obtain s n' where run: "toUrlAndQuery_run n = (s, n')"
    by (cases "toUrlAndQuery_run n")
  with toUrlAndQuery_run_node [of n] have n': "n' = n" by simp
  from run have s: "s = toUrlAndQuery n" by (simp add: toUrlAndQuery_def)
  show ?thesis
    using assms
    by (simp add: toRequestContext_def run n' s Let_def split: prod.splits)
qed

lemma toRequestContext_rejected:
  assumes "toAbsoluteUrl (toUrlAndQuery n) = Inl e"
  shows "toRequestContext toAbsoluteUrl guid n v opts ps pl tr =
    (Inl e,
     (if hasBatch n then snd (addBatchDependency n tr) else tr)
       @ [ToAbsoluteUrl (toUrlAndQuery n)])"
proof -
  obtain s n' where run: "toUrlAndQuery_run n = (s, n')"
    by (cases "toUrlAndQuery_run n")
  from run have s: "s = toUrlAndQuery n" by (simp add: toUrlAndQuery_def)
  show ?thesis
    using assms
    by (simp add: toRequestContext_def run s Let_def split: prod.splits)
qed

text \<open>
  Claim C6. For every call of \<^verbatim>\<open>toRequestContext\<close> whose URL resolves, a descriptor is
  returned, and its flag \<open>isCached\<close> is true if and only if the verb equals \<open>GET\<close>
  without regard to case and the flag \<open>useCaching\<close> of the node is set; so the verb
  \<open>POST\<close> gives false even when the flag is set.
\<close>

theorem cache_eligibility:
  assumes "toAbsoluteUrl (toUrlAndQuery n) = Inr u"
  shows "\<exists>ctx. fst (toRequestContext toAbsoluteUrl guid n v opts ps pl tr) = Inr ctx \<and>
           (isCached ctx \<longleftrightarrow> map toUpperCase v = ''GET'' \<and> useCaching n)"
  by (simp add: toRequestContext_resolved [of toAbsoluteUrl n u, OF assms] test_get_iff)

lemma items_node_serialized: "toUrlAndQuery items_node = ''_api/web/lists/items?$top=5''"
  by code_simp

lemma items_node_resolves:
  "resolve_on_contoso (toUrlAndQuery items_node) = Inr ''https://contoso.com/_api/web/lists/items?$top=5''"
  by (simp add: items_node_serialized resolve_on_contoso_def)

theorem cache_eligibility_witness:
  "resolve_on_contoso (toUrlAndQuery items_node)
     = Inr ''https://contoso.com/_api/web/lists/items?$top=5'' \<and>
   (\<exists>ctx. fst (toRequestContext resolve_on_contoso ''id-1'' items_node ''get'' None () () [])
            = Inr ctx \<and> isCached ctx) \<and>
   (\<exists>ctx. fst (toRequestContext resolve_on_contoso ''id-2'' items_node ''POST'' None () () [])
            = Inr ctx \<and> \<not> isCached ctx)"
  using items_node_resolves
    cache_eligibility [of resolve_on_contoso items_node
      "''https://contoso.com/_api/web/lists/items?$top=5''" "''id-1''" "''get''" None "()" "()" "[]"]
    cache_eligibility [of resolve_on_contoso items_node
      "''https://contoso.com/_api/web/lists/items?$top=5''" "''id-2''" "''POST''" None "()" "()" "[]"]
  by (simp add: toUpperCase_def items_node_def)

text \<open>
  Claim C8. For every call of \<^verbatim>\<open>toRequestContext\<close> whose URL resolves, the options of
  the descriptor are the options of the caller overlaid with the options of the node:
  at every key the value of the node when it has one, the value of the caller
  otherwise.
\<close>

theorem options_overlay:
  assumes "toAbsoluteUrl (toUrlAndQuery n) = Inr u"
  shows "\<exists>ctx. fst (toRequestContext toAbsoluteUrl guid n v opts ps pl tr) = Inr ctx \<and>
           (\<forall>k. ctx_options ctx k =
              (case options n k of
                 Some x \<Rightarrow> Some x
               | None \<Rightarrow> (case opts of None \<Rightarrow> None | Some os \<Rightarrow> os k)))"
  by (simp add: toRequestContext_resolved [of toAbsoluteUrl n u, OF assms] mergeOptions_def map_add_def
      split: option.splits)

theorem options_overlay_witness:
  "resolve_on_contoso (toUrlAndQuery items_node)
     = Inr ''https://contoso.com/_api/web/lists/items?$top=5'' \<and>
   (\<exists>ctx. fst (toRequestContext resolve_on_contoso ''id-1'' items_node ''GET''
               (Some [''mode'' \<mapsto> ''no-cors'', ''cache'' \<mapsto> ''reload'']) () () [])
            = Inr ctx \<and>
          ctx_options ctx ''mode'' = Some ''cors'' \<and>
          ctx_options ctx ''credentials'' = Some ''same-origin'' \<and>
          ctx_options ctx ''cache'' = Some ''reload'' \<and>
          ctx_options ctx ''headers'' = None)"
proof -
  from options_overlay [of resolve_on_contoso items_node
      "''https://contoso.com/_api/web/lists/items?$top=5''" "''id-1''" "''GET''"
      "Some [''mode'' \<mapsto> ''no-cors'', ''cache'' \<mapsto> ''reload'']" "()" "()" "[]",
      OF items_node_resolves]
  obtain ctx where
    c: "fst (toRequestContext resolve_on_contoso ''id-1'' items_node ''GET''
               (Some [''mode'' \<mapsto> ''no-cors'', ''cache'' \<mapsto> ''reload'']) () () []) = Inr ctx"
    and o: "\<And>k. ctx_options ctx k =
              (case options items_node k of
                 Some x \<Rightarrow> Some x
               | None \<Rightarrow>
                   (case Some [''mode'' \<mapsto> ''no-cors'', ''cache'' \<mapsto> ''reload''] of
                      None \<Rightarrow> None
                    | Some os \<Rightarrow> os k))"
    by blast
  have "ctx_options ctx ''mode'' = Some ''cors''"
    and "ctx_options ctx ''credentials'' = Some ''same-origin''"
    and "ctx_options ctx ''cache'' = Some ''reload''"
    and "ctx_options ctx ''headers'' = None"
    by (simp_all add: o items_node_def ODataQueryable_def)
  with c items_node_resolves show ?thesis by simp
qed

text \<open>
  Claim C5. For every call of \<^verbatim>\<open>toRequestContext\<close> on a node with a batch, the
  dependency is registered with the batch exactly once, before the resolution of the
  absolute URL is called, and the release callback of the descriptor is the one that
  registration returned; for a node with no batch nothing is registered and the
  release callback is the function that does nothing.
\<close>

theorem batch_dependency_first:
  "(batch n = Some b \<longrightarrow>
      (\<exists>rest. snd (toRequestContext toAbsoluteUrl guid n v opts ps pl tr)
                = tr @ [AddBatchDependency b, ToAbsoluteUrl (toUrlAndQuery n)] @ rest \<and>
              registrations rest = 0) \<and>
      (\<forall>u. toAbsoluteUrl (toUrlAndQuery n) = Inr u \<longrightarrow>
         (\<exists>ctx. fst (toRequestContext toAbsoluteUrl guid n v opts ps pl tr) = Inr ctx \<and>
                batchDependency ctx = fst (addBatchDependency n tr) \<and>
                batchDependency ctx = BatchRelease b (registrations tr)))) \<and>
   (batch n = None \<longrightarrow>
      registrations (snd (toRequestContext toAbsoluteUrl guid n v opts ps pl tr))
        = registrations tr \<and>
      (\<forall>u. toAbsoluteUrl (toUrlAndQuery n) = Inr u \<longrightarrow>
         (\<exists>ctx. fst (toRequestContext toAbsoluteUrl guid n v opts ps pl tr) = Inr ctx \<and>
                batchDependency ctx = NoOp)))"
proof (cases "toAbsoluteUrl (toUrlAndQuery n)")
  case (Inl e)
  show ?thesis
    by (simp add: toRequestContext_rejected [of toAbsoluteUrl n e, OF Inl] Inl hasBatch_def addBatchDependency_def
        registrations_def)
next
  case (Inr u)
  show ?thesis
    by (simp add: toRequestContext_resolved [of toAbsoluteUrl n u, OF Inr] Inr hasBatch_def addBatchDependency_def
        registrations_def)
qed

theorem batch_dependency_first_witness:
  "batch items_node = Some 7 \<and>
   snd (toRequestContext resolve_on_contoso ''id-1'' items_node ''GET'' None () ()
          [AddBatchDependency 7])
     = [AddBatchDependency 7, AddBatchDependency 7,
        ToAbsoluteUrl ''_api/web/lists/items?$top=5'', GetGUID] \<and>
   (\<exists>ctx. fst (toRequestContext resolve_on_contoso ''id-1'' items_node ''GET'' None () ()
               [AddBatchDependency 7]) = Inr ctx \<and>
          batchDependency ctx = BatchRelease 7 1) \<and>
   batch (items_node\<lparr>batch := None\<rparr>) = None \<and>
   registrations (snd (toRequestContext resolve_on_contoso ''id-1''
      (items_node\<lparr>batch := None\<rparr>) ''GET'' None () () [AddBatchDependency 7])) = 1 \<and>
   (\<exists>ctx. fst (toRequestContext resolve_on_contoso ''id-1''
               (items_node\<lparr>batch := None\<rparr>) ''GET'' None () () [AddBatchDependency 7])
            = Inr ctx \<and> batchDependency ctx = NoOp)"
proof -
  have b: "batch items_node = Some 7"
    by (simp add: items_node_def)
  have nb: "batch (items_node\<lparr>batch := None\<rparr>) = None"
    by simp
  have s: "toUrlAndQuery (items_node\<lparr>batch := None\<rparr>) = ''_api/web/lists/items?$top=5''"
    by code_simp
  have r: "resolve_on_contoso ''_api/web/lists/items?$top=5''
     = Inr ''https://contoso.com/_api/web/lists/items?$top=5''"
    by (simp add: resolve_on_contoso_def)
  have t: "snd (toRequestContext resolve_on_contoso ''id-1'' items_node ''GET'' None () ()
          [AddBatchDependency 7])
     = [AddBatchDependency 7, AddBatchDependency 7,
        ToAbsoluteUrl ''_api/web/lists/items?$top=5'', GetGUID]"
    by (simp add: toRequestContext_resolved [of resolve_on_contoso items_node, OF items_node_resolves]
        hasBatch_def b addBatchDependency_def items_node_serialized)
  note with_batch = batch_dependency_first
      [of items_node 7 resolve_on_contoso "''id-1''" "''GET''" None "()" "()"
        "[AddBatchDependency 7]", THEN conjunct1, rule_format, OF b, THEN conjunct2, rule_format,
        OF items_node_resolves]
  note without_batch = batch_dependency_first
      [of "items_node\<lparr>batch := None\<rparr>" 7 resolve_on_contoso "''id-1''" "''GET''" None "()" "()"
        "[AddBatchDependency 7]", THEN conjunct2, rule_format, OF nb]
  from b nb t with_batch without_batch show ?thesis
    by (auto simp: registrations_def s r)
qed

subsection \<open>Ordering a collection\<close>

lemma orderby_values:
  "key_unique d \<Longrightarrow>
   map (dict_get d) (filter (\<lambda>k. k = key) (dict_getKeys d)) =
     (case dict_get d key of None \<Rightarrow> [] | Some v \<Rightarrow> [Some v])"
proof (induction d)
  case Nil
  then show ?case by (simp add: dict_getKeys_def dict_get_def)
next
  case (Cons e d)
  obtain k' v' where e: "e = (k', v')" by (cases e)
  from Cons.prems e have u: "key_unique d" and fresh: "k' \<notin> set (dict_getKeys d)"
    by (simp_all add: key_unique_def dict_getKeys_def)
  show ?case
  proof (cases "k' = key")
    case True
    with fresh have "filter (\<lambda>k. k = key) (dict_getKeys d) = []"
      by (auto simp: filter_empty_conv)
    with True e show ?thesis by (simp add: dict_getKeys_def dict_get_def)
  next
    case False
    have "map (\<lambda>a. if a = k' then Some v' else map_of d a)
            (filter (\<lambda>k. k = key) (map fst d))
        = map (map_of d) (filter (\<lambda>k. k = key) (map fst d))"
      by (rule map_cong) (use False in auto)
    with False e Cons.IH [OF u] show ?thesis
      by (simp add: dict_getKeys_def dict_get_def)
  qed
qed

lemma orderBy_entry:
  assumes "key_unique (query n)"
  shows "dict_get (query (Collection_orderBy f asc n)) ''$orderby'' =
      Some ((case dict_get (query n) ''$orderby'' of None \<Rightarrow> [] | Some old \<Rightarrow> old @ '','')
            @ f @ '' '' @ (if asc = Some False then ''desc'' else ''asc''))"
  by (cases asc)
    (simp_all add: Collection_orderBy_def Let_def dict_get_add orderby_values [OF assms]
      split: option.splits)

lemma orderBy_key_unique: "key_unique (query n) \<Longrightarrow> key_unique (query (Collection_orderBy f asc n))"
  by (simp add: Collection_orderBy_def Let_def key_unique_add)

text \<open>
  Claim C7. On a collection whose accumulator is key-unique, each call of
  \<^verbatim>\<open>orderBy(field, ascending)\<close> appends the clause \<open>field asc\<close> (ascending true or
  absent) or \<open>field desc\<close> (ascending false) to the value of \<open>$orderby\<close> there is, after
  a comma, and does not replace it; so \<^verbatim>\<open>orderBy("Title")\<close> followed by
  \<^verbatim>\<open>orderBy("Created", false)\<close> gives the entry \<open>Title asc,Created desc\<close>, which is
  serialized as \<open>$orderby=Title asc,Created desc\<close>.
\<close>

theorem orderBy_appends:
  assumes "key_unique (query n)"
  shows "dict_get (query (Collection_orderBy f asc n)) ''$orderby'' =
           Some ((case dict_get (query n) ''$orderby'' of
                    None \<Rightarrow> []
                  | Some old \<Rightarrow> old @ '','')
                 @ f @ '' '' @ (if asc = Some False then ''desc'' else ''asc'')) \<and>
         (dict_get (query n) ''$orderby'' = None \<longrightarrow>
            dict_get (query (Collection_orderBy ''Created'' (Some False)
                              (Collection_orderBy ''Title'' None n))) ''$orderby''
              = Some ''Title asc,Created desc'') \<and>
         (query n = [] \<and> snd (replaceAliases (url n)) = [] \<longrightarrow>
            toUrlAndQuery (Collection_orderBy ''Created'' (Some False)
                            (Collection_orderBy ''Title'' None n))
              = fst (replaceAliases (url n)) @ ''?$orderby=Title asc,Created desc'')"
proof (intro conjI impI)
  show "dict_get (query (Collection_orderBy f asc n)) ''$orderby'' =
           Some ((case dict_get (query n) ''$orderby'' of
                    None \<Rightarrow> []
                  | Some old \<Rightarrow> old @ '','')
                 @ f @ '' '' @ (if asc = Some False then ''desc'' else ''asc''))"
    by (rule orderBy_entry [OF assms])
next
  assume none: "dict_get (query n) ''$orderby'' = None"
  have first: "dict_get (query (Collection_orderBy ''Title'' None n)) ''$orderby'' = Some ''Title asc''"
    using orderBy_entry [OF assms, of "''Title''" None] none by simp
  show "dict_get (query (Collection_orderBy ''Created'' (Some False)
                              (Collection_orderBy ''Title'' None n))) ''$orderby''
              = Some ''Title asc,Created desc''"
    using orderBy_entry [of "Collection_orderBy ''Title'' None n" "''Created''" "Some False",
        OF orderBy_key_unique [OF assms]] first
    by simp
next
  assume e: "query n = [] \<and> snd (replaceAliases (url n)) = []"
  then obtain body where r: "replaceAliases (url n) = (body, [])"
    by (cases "replaceAliases (url n)") simp
  have q: "query (Collection_orderBy ''Created'' (Some False) (Collection_orderBy ''Title'' None n))
      = [(''$orderby'', ''Title asc,Created desc'')]"
    using e by (simp add: Collection_orderBy_def Let_def dict_getKeys_def dict_get_def)
  have u: "url (Collection_orderBy ''Created'' (Some False) (Collection_orderBy ''Title'' None n)) = url n"
    by (simp add: Collection_orderBy_def Let_def)
  show "toUrlAndQuery (Collection_orderBy ''Created'' (Some False)
                            (Collection_orderBy ''Title'' None n))
              = fst (replaceAliases (url n)) @ ''?$orderby=Title asc,Created desc''"
    by (simp add: toUrlAndQuery_def toUrlAndQuery_run_def toUrl_def q u r dict_merge_def
        dict_count_def dict_getKeys_def dict_get_def)
qed

theorem orderBy_appends_witness:
  "key_unique (query items_node) \<and>
   dict_get (query (Collection_orderBy ''Modified'' (Some False)
      (Collection_orderBy ''Title'' (Some True) items_node))) ''$orderby''
     = Some ''Title asc,Modified desc'' \<and>
   dict_get (query items_node) ''$orderby'' = None \<and>
   dict_get (query (Collection_orderBy ''Created'' (Some False)
      (Collection_orderBy ''Title'' None items_node))) ''$orderby''
     = Some ''Title asc,Created desc'' \<and>
   query (ODataQueryable\<lparr>url := ''_api/web/lists''\<rparr>) = [] \<and>
   snd (replaceAliases (url (ODataQueryable\<lparr>url := ''_api/web/lists''\<rparr>))) = [] \<and>
   toUrlAndQuery (Collection_orderBy ''Created'' (Some False)
      (Collection_orderBy ''Title'' None (ODataQueryable\<lparr>url := ''_api/web/lists''\<rparr>)))
     = ''_api/web/lists?$orderby=Title asc,Created desc''"
proof -
  have u: "key_unique (query items_node)"
    by (simp add: items_node_def key_unique_def)
  have u1: "key_unique (query (Collection_orderBy ''Title'' (Some True) items_node))"
    by (simp add: items_node_def key_unique_def Collection_orderBy_def dict_getKeys_def
        ODataQueryable_def)
  have none: "dict_get (query items_node) ''$orderby'' = None"
    by (simp add: items_node_def dict_get_def)
  have u0: "key_unique (query (ODataQueryable\<lparr>url := ''_api/web/lists''\<rparr>))"
    by (simp add: key_unique_def ODataQueryable_def)
  have q0: "query (ODataQueryable\<lparr>url := ''_api/web/lists''\<rparr>) = []"
    by (simp add: ODataQueryable_def)
  have r0: "replaceAliases (url (ODataQueryable\<lparr>url := ''_api/web/lists''\<rparr>))
      = (''_api/web/lists'', [])"
    by code_simp
  note a = orderBy_appends [OF u, of "''Title''" "Some True", THEN conjunct1]
  note b = orderBy_appends [OF u1, of "''Modified''" "Some False", THEN conjunct1]
  note c = orderBy_appends [OF u, of "''Title''" None, THEN conjunct2, THEN conjunct1,
      rule_format, OF none]
  note d = orderBy_appends [OF u0, of "''Title''" None, THEN conjunct2, THEN conjunct2,
      rule_format]
  from u none q0 r0 a b c d show ?thesis
    by simp
qed

subsection \<open>Aliased parameters\<close>

text \<open>
  The matcher finds the tokens of the reading and no others: it fails exactly where
  no token starts, and where it matches, the label and the value are a token's.
\<close>

lemma lazyValue_None: "lazyValue s = None \<longleftrightarrow> \<not> closes s"
  by (induction s) (auto split: option.splits)

lemma afterLabel_None:
  "afterLabel (c # cs) = None \<longleftrightarrow>
     \<not> (c = CHR '':'' \<and> (case cs of [] \<Rightarrow> False | d # r \<Rightarrow> d = CHR '':'' \<and> closes r))"
  by (cases cs) (auto simp: afterLabel_def lazyValue_None)

lemma lazyLabel_None: "lazyLabel s = None \<longleftrightarrow> \<not> separated s"
proof (induction s)
  case Nil
  show ?case by simp
next
  case (Cons c cs)
  have "lazyLabel (c # cs) = None \<longleftrightarrow>
      afterLabel (c # cs) = None \<and> (isLineTerminator c \<or> lazyLabel cs = None)"
    by (cases "afterLabel (c # cs)"; cases "lazyLabel cs") auto
  with Cons afterLabel_None [of c cs] show ?case
    by (simp del: lazyLabel.simps)
qed

lemma matchAlias_None: "matchAlias s = None \<longleftrightarrow> \<not> startsToken s"
proof -
  have "(case lazyLabel r of None \<Rightarrow> None | Some (l, v, r') \<Rightarrow> Some (CHR ''@'' # l, v, r')) = None
      \<longleftrightarrow> \<not> separated r" for r
    using lazyLabel_None [of r] by (cases "lazyLabel r") auto
  then show ?thesis
    by (auto simp: matchAlias_def startsToken_def split: list.splits)
qed

lemma lazyValue_value:
  "oneLine v \<Longrightarrow> CHR 0x27 \<notin> set v \<Longrightarrow> lazyValue (v @ CHR 0x27 # r) = Some (v, r)"
  by (induction v) (auto simp: oneLine_def)

lemma lazyValue_Some:
  "lazyValue s = Some (v, r) \<Longrightarrow> s = v @ CHR 0x27 # r \<and> oneLine v \<and> CHR 0x27 \<notin> set v"
  by (induction s arbitrary: v) (auto simp: oneLine_def split: if_splits option.splits)

lemma closes_append: "oneLine x \<Longrightarrow> closes (x @ CHR 0x27 # r)"
  by (induction x) (auto simp: oneLine_def)

lemma hasSeparator_Cons:
  "hasSeparator (c # l @ '':'') \<longleftrightarrow>
     (c = CHR '':'' \<and> hd (l @ '':'') = CHR '':'') \<or> hasSeparator (l @ '':'')"
  by (cases l) auto

lemma lazyLabel_label:
  assumes "oneLine v" and "CHR 0x27 \<notin> set v"
  shows "oneLine l \<Longrightarrow> \<not> hasSeparator (l @ '':'') \<Longrightarrow>
         lazyLabel (l @ CHR '':'' # CHR '':'' # v @ CHR 0x27 # r) = Some (l, v, r)"
proof (induction l)
  case Nil
  show ?case by (simp add: afterLabel_def lazyValue_value [OF assms])
next
  case (Cons c l)
  from Cons.prems(2) have here: "\<not> (c = CHR '':'' \<and> hd (l @ '':'') = CHR '':'')"
    and later: "\<not> hasSeparator (l @ '':'')"
    by (simp_all add: hasSeparator_Cons)
  from here have "afterLabel (c # l @ CHR '':'' # CHR '':'' # v @ CHR 0x27 # r) = None"
    by (cases l) (auto simp: afterLabel_def)
  with Cons.IH [OF _ later] Cons.prems(1) show ?case
    by (simp add: oneLine_def)
qed

lemma lazyLabel_Some:
  "lazyLabel s = Some (l, v, r) \<Longrightarrow>
   s = l @ CHR '':'' # CHR '':'' # v @ CHR 0x27 # r \<and> oneLine l \<and>
   \<not> hasSeparator (l @ '':'') \<and> oneLine v \<and> CHR 0x27 \<notin> set v"
proof (induction s arbitrary: l)
  case Nil
  then show ?case by simp
next
  case (Cons c cs)
  show ?case
  proof (cases "afterLabel (c # cs)")
    case (Some p)
    with Cons.prems have l: "l = []" and a: "afterLabel (c # cs) = Some (v, r)"
      by (cases p; simp)+
    from a obtain t where cs: "c # cs = CHR '':'' # CHR '':'' # t" and "lazyValue t = Some (v, r)"
      by (auto simp: afterLabel_def split: list.splits if_splits)
    with lazyValue_Some [of t v r] l show ?thesis by (simp add: oneLine_def)
  next
    case None
    with Cons.prems obtain l0 where l: "l = c # l0" and c: "\<not> isLineTerminator c"
      and rest: "lazyLabel cs = Some (l0, v, r)"
      by (auto split: if_splits option.splits)
    from Cons.IH [OF rest]
    have cs: "cs = l0 @ CHR '':'' # CHR '':'' # v @ CHR 0x27 # r" and l0: "oneLine l0"
      and sep: "\<not> hasSeparator (l0 @ '':'')" and v: "oneLine v" "CHR 0x27 \<notin> set v"
      by simp_all
    have "\<not> (c = CHR '':'' \<and> hd (l0 @ '':'') = CHR '':'')"
    proof
      assume both: "c = CHR '':'' \<and> hd (l0 @ '':'') = CHR '':''"
      have "\<exists>x. oneLine x \<and> cs = CHR '':'' # x @ CHR 0x27 # r"
      proof (cases l0)
        case Nil
        with cs v(1) show ?thesis
          by (intro exI [of _ "CHR '':'' # v"]) (auto simp: oneLine_def isLineTerminator_def)
      next
        case (Cons d l1)
        with both cs l0 v(1) show ?thesis
          by (intro exI [of _ "l1 @ CHR '':'' # CHR '':'' # v"])
            (auto simp: oneLine_def isLineTerminator_def)
      qed
      then obtain x where "oneLine x" and "cs = CHR '':'' # x @ CHR 0x27 # r"
        by blast
      with both closes_append [of x r] have "afterLabel (c # cs) \<noteq> None"
        by (simp add: afterLabel_def lazyValue_None)
      with None show False by simp
    qed
    with sep have "\<not> hasSeparator (l @ '':'')"
      by (simp add: l hasSeparator_Cons)
    with cs l l0 c v show ?thesis
      by (simp add: oneLine_def)
  qed
qed

lemma matchAlias_token:
  assumes "oneLine l" and "\<not> hasSeparator (l @ '':'')" and "oneLine v" and "CHR 0x27 \<notin> set v"
  shows "matchAlias (CHR 0x27 # CHR ''!'' # CHR ''@'' # l @ CHR '':'' # CHR '':'' # v @ CHR 0x27 # r)
           = Some (CHR ''@'' # l, v, r)"
  by (simp add: matchAlias_def lazyLabel_label [OF assms(3,4,1,2)])

lemma matchAlias_Some:
  assumes "matchAlias s = Some (labelName, v, r)"
  shows "\<exists>l. labelName = CHR ''@'' # l \<and>
           s = CHR 0x27 # CHR ''!'' # CHR ''@'' # l @ CHR '':'' # CHR '':'' # v @ CHR 0x27 # r \<and>
           oneLine l \<and> \<not> hasSeparator (l @ '':'') \<and> oneLine v \<and> CHR 0x27 \<notin> set v"
proof -
  from assms obtain t l where s: "s = CHR 0x27 # CHR ''!'' # CHR ''@'' # t"
    and l: "labelName = CHR ''@'' # l" and t: "lazyLabel t = Some (l, v, r)"
    by (auto simp: matchAlias_def split: list.splits if_splits option.splits)
  from lazyLabel_Some [OF t] s l show ?thesis by simp
qed

lemma replaceAliases_plain:
  "tokenFree s rest \<Longrightarrow>
   replaceAliases (s @ rest) = (s @ fst (replaceAliases rest), snd (replaceAliases rest))"
proof (induction s)
  case Nil
  show ?case by simp
next
  case (Cons c cs)
  then have "matchAlias (c # cs @ rest) = None"
    by (simp add: matchAlias_None)
  with Cons show ?case
    by (simp add: replaceAliases.simps [of "c # cs @ rest"] split: prod.splits)
qed

lemma replaceAliases_token:
  assumes "oneLine l" and "\<not> hasSeparator (l @ '':'')" and "oneLine v" and "CHR 0x27 \<notin> set v"
  shows "replaceAliases (CHR 0x27 # CHR ''!'' # CHR ''@'' # l @ CHR '':'' # CHR '':'' # v @ CHR 0x27 # r)
           = (CHR ''@'' # l @ fst (replaceAliases r), (CHR ''@'' # l, v) # snd (replaceAliases r))"
  by (simp add: replaceAliases.simps
        [of "CHR 0x27 # CHR ''!'' # CHR ''@'' # l @ CHR '':'' # CHR '':'' # v @ CHR 0x27 # r"]
      matchAlias_token [OF assms] split: prod.splits)

lemma replaceAliases_render:
  "wellFormed ps \<Longrightarrow> replaceAliases (render ps) = (rewritten ps, aliases ps)"
proof (induction ps rule: wellFormed.induct)
  case 1
  show ?case by (simp add: replaceAliases.simps [of "[]"] matchAlias_def)
next
  case (2 s ps)
  then have "tokenFree s (render ps)" and "replaceAliases (render ps) = (rewritten ps, aliases ps)"
    by simp_all
  with replaceAliases_plain [of s "render ps"] show ?case by simp
next
  case (3 l v ps)
  then have a: "oneLine l" "\<not> hasSeparator (l @ '':'')" "oneLine v" "CHR 0x27 \<notin> set v"
    and "replaceAliases (render ps) = (rewritten ps, aliases ps)"
    by simp_all
  with replaceAliases_token [OF a, of "render ps"] show ?case by simp
qed

text \<open>Every text has a well-formed reading: the one the matcher finds.\<close>

lemma every_url_reads: "\<exists>ps. wellFormed ps \<and> render ps = s"
proof (induction s rule: length_induct)
  case (1 s)
  show ?case
  proof (cases "matchAlias s")
    case (Some m)
    obtain labelName v r where m: "m = (labelName, v, r)" by (cases m)
    from matchAlias_Some [of s labelName v r] Some m obtain l
      where s: "s = CHR 0x27 # CHR ''!'' # CHR ''@'' # l @ CHR '':'' # CHR '':'' # v @ CHR 0x27 # r"
        and t: "oneLine l" "\<not> hasSeparator (l @ '':'')" "oneLine v" "CHR 0x27 \<notin> set v"
      by auto
    from s have "length r < length s" by simp
    with 1 obtain ps where "wellFormed ps" and "render ps = r" by blast
    with s t have "wellFormed (Alias l v # ps) \<and> render (Alias l v # ps) = s" by simp
    then show ?thesis by blast
  next
    case None
    show ?thesis
    proof (cases s)
      case Nil
      then have "wellFormed [] \<and> render [] = s" by simp
      then show ?thesis by blast
    next
      case (Cons c cs)
      with 1 obtain ps where ps: "wellFormed ps" "render ps = cs" by auto
      from None Cons have "\<not> startsToken (c # cs)" by (simp add: matchAlias_None)
      with ps Cons have "wellFormed (Plain [c] # ps) \<and> render (Plain [c] # ps) = s" by simp
      then show ?thesis by blast
    qed
  qed
qed

lemma key_unique_fold_add:
  "key_unique d \<Longrightarrow> key_unique (fold (\<lambda>(k, v). dict_add k (f v)) xs d)"
  by (induction xs arbitrary: d) (auto simp: key_unique_add)

lemma pairs_of_keys:
  "key_unique d \<Longrightarrow>
   map (\<lambda>key. key @ ''='' @ (case dict_get d key of None \<Rightarrow> ''null'' | Some v \<Rightarrow> v))
     (dict_getKeys d)
   = map (\<lambda>(k, v). k @ ''='' @ v) d"
proof (induction d)
  case Nil
  show ?case by (simp add: dict_getKeys_def)
next
  case (Cons e d)
  obtain k v where e: "e = (k, v)" by (cases e)
  from Cons.prems e have u: "key_unique d" and fresh: "k \<notin> set (map fst d)"
    by (simp_all add: key_unique_def)
  have "map (\<lambda>key. key @ ''='' @ (case dict_get (e # d) key of None \<Rightarrow> ''null'' | Some v \<Rightarrow> v))
          (map fst d)
      = map (\<lambda>key. key @ ''='' @ (case dict_get d key of None \<Rightarrow> ''null'' | Some v \<Rightarrow> v))
          (map fst d)"
    by (rule map_cong) (use fresh e in \<open>auto simp: dict_get_def\<close>)
  with Cons.IH [OF u] e show ?case
    by (simp add: dict_getKeys_def dict_get_def)
qed

lemma toUrlAndQuery_unfold:
  "toUrlAndQuery n =
     fst (replaceAliases (url n)) @
     queryString (fst (dict_merge (registered (snd (replaceAliases (url n)))) (query n)))"
proof -
  obtain body calls where r: "replaceAliases (url n) = (body, calls)"
    by (cases "replaceAliases (url n)")
  define merged where "merged = fold (\<lambda>(k, v). dict_add k v) (query n) (registered calls)"
  have "key_unique (registered calls)"
    unfolding registered_def by (rule key_unique_fold_add) (simp add: key_unique_def)
  then have "key_unique merged"
    unfolding merged_def using key_unique_fold_add [of _ "\<lambda>v. v"] by simp
  then have pairs:
    "map (\<lambda>key. key @ ''='' @ (case dict_get merged key of None \<Rightarrow> ''null'' | Some v \<Rightarrow> v))
       (dict_getKeys merged)
     = map (\<lambda>(k, v). k @ ''='' @ v) merged"
    by (rule pairs_of_keys)
  have m: "fst (dict_merge (registered calls) (query n)) = merged"
    by (simp add: dict_merge_def merged_def)
  have run: "toUrlAndQuery n =
      (if merged = [] then body
       else body @ ''?'' @
         join ''&''
           (map (\<lambda>key. key @ ''='' @
                   (case dict_get merged key of None \<Rightarrow> ''null'' | Some v \<Rightarrow> v))
              (dict_getKeys merged)))"
    by (simp add: toUrlAndQuery_def toUrlAndQuery_run_def toUrl_def r dict_merge_def Let_def
        dict_count_def merged_def registered_def)
  show ?thesis
    unfolding run pairs r fst_conv snd_conv m queryString_def by simp
qed

lemma dict_get_merge:
  "key_unique other \<Longrightarrow>
   dict_get (fst (dict_merge this other)) k =
     (case dict_get other k of Some v \<Rightarrow> Some v | None \<Rightarrow> dict_get this k)"
proof -
  have "key_unique other \<Longrightarrow>
      dict_get (fold (\<lambda>(k, v). dict_add k v) other this) k =
        (case dict_get other k of Some v \<Rightarrow> Some v | None \<Rightarrow> dict_get this k)"
  proof (induction other arbitrary: this)
    case Nil
    show ?case by (simp add: dict_get_def)
  next
    case (Cons e other)
    obtain k' v' where e: "e = (k', v')" by (cases e)
    from Cons.prems e have u: "key_unique other" and fresh: "dict_get other k' = None"
      by (simp_all add: key_unique_def dict_get_def map_of_eq_None_iff)
    have head: "dict_get ((k', v') # other) k = (if k = k' then Some v' else dict_get other k)"
      by (simp add: dict_get_def)
    show ?case
      using Cons.IH [OF u, of "dict_add k' v' this"] e fresh
      by (simp add: head dict_get_add split: option.splits)
  qed
  then show "key_unique other \<Longrightarrow> ?thesis"
    by (simp add: dict_merge_def)
qed

lemma dict_getKeys_merge:
  "key_unique other \<Longrightarrow>
   dict_getKeys (fst (dict_merge this other)) =
     dict_getKeys this @ filter (\<lambda>k. k \<notin> set (dict_getKeys this)) (dict_getKeys other)"
proof -
  have "key_unique other \<Longrightarrow>
      dict_getKeys (fold (\<lambda>(k, v). dict_add k v) other this) =
        dict_getKeys this @ filter (\<lambda>k. k \<notin> set (dict_getKeys this)) (dict_getKeys other)"
  proof (induction other arbitrary: this)
    case Nil
    show ?case by (simp add: dict_getKeys_def)
  next
    case (Cons e other)
    obtain k' v' where e: "e = (k', v')" by (cases e)
    from Cons.prems e have u: "key_unique other" and fresh: "k' \<notin> set (dict_getKeys other)"
      by (simp_all add: key_unique_def dict_getKeys_def)
    have tail: "dict_getKeys ((k', v') # other) = k' # dict_getKeys other"
      by (simp add: dict_getKeys_def)
    show ?case
    proof (cases "k' \<in> set (dict_getKeys this)")
      case True
      with Cons.IH [OF u, of "dict_add k' v' this"] e show ?thesis
        by (simp add: tail dict_getKeys_add)
    next
      case False
      have "filter (\<lambda>k. k \<noteq> k' \<and> k \<notin> set (dict_getKeys this)) (dict_getKeys other)
          = filter (\<lambda>k. k \<notin> set (dict_getKeys this)) (dict_getKeys other)"
        by (rule filter_cong) (use fresh in auto)
      with False Cons.IH [OF u, of "dict_add k' v' this"] e show ?thesis
        by (simp add: tail dict_getKeys_add)
    qed
  qed
  then show "key_unique other \<Longrightarrow> ?thesis"
    by (simp add: dict_merge_def)
qed

lemma startsToken_iff:
  "startsToken s \<longleftrightarrow>
     (\<exists>l v r. s = CHR 0x27 # CHR ''!'' # CHR ''@'' # l @ CHR '':'' # CHR '':'' # v @ CHR 0x27 # r \<and>
        oneLine l \<and> \<not> hasSeparator (l @ '':'') \<and> oneLine v \<and> CHR 0x27 \<notin> set v)"
proof
  assume "startsToken s"
  then obtain m where "matchAlias s = Some m"
    using matchAlias_None [of s] by (cases "matchAlias s") auto
  then show "\<exists>l v r. s = CHR 0x27 # CHR ''!'' # CHR ''@'' # l @ CHR '':'' # CHR '':'' # v @ CHR 0x27 # r \<and>
        oneLine l \<and> \<not> hasSeparator (l @ '':'') \<and> oneLine v \<and> CHR 0x27 \<notin> set v"
    using matchAlias_Some [of s "fst m" "fst (snd m)" "snd (snd m)"] by auto
next
  assume "\<exists>l v r. s = CHR 0x27 # CHR ''!'' # CHR ''@'' # l @ CHR '':'' # CHR '':'' # v @ CHR 0x27 # r \<and>
        oneLine l \<and> \<not> hasSeparator (l @ '':'') \<and> oneLine v \<and> CHR 0x27 \<notin> set v"
  then obtain l v r
    where "s = CHR 0x27 # CHR ''!'' # CHR ''@'' # l @ CHR '':'' # CHR '':'' # v @ CHR 0x27 # r"
      and "oneLine l" "\<not> hasSeparator (l @ '':'')" "oneLine v" "CHR 0x27 \<notin> set v"
    by blast
  with matchAlias_token [of l v r] have "matchAlias s \<noteq> None" by simp
  then show "startsToken s" by (simp add: matchAlias_None)
qed

text \<open>
  Claim C3, amended. For every node, the composed URL reads as plain text and
  tokens \<open>'!@label::value'\<close> taken from left to right, each token on one line, its label
  running to the first \<open>::\<close> and its value to the first single quote (a well-formed
  sequence of parts; every URL has one). \<^verbatim>\<open>toUrlAndQuery\<close> replaces every token of
  that reading in the URL body by its bare label and registers the label as a query
  parameter whose value is the literal in single quotes (a later token of the same
  label overwriting the value); afterwards the entries of the accumulator are merged
  in; the query string joins the pairs \<open>key=value\<close> with \<open>&\<close> and follows a single \<open>?\<close>
  only if there is a pair. When the accumulator is key-unique, its entries win on a
  collision with a label, and the keys come in first-seen order: the labels, then the
  keys of the accumulator that are no label.
\<close>

theorem aliases_rewritten:
  "(\<exists>ps. wellFormed ps \<and> url n = render ps) \<and>
   (\<forall>ps. wellFormed ps \<and> url n = render ps \<longrightarrow>
      toUrlAndQuery n =
        rewritten ps @
        queryString (fst (dict_merge (registered (aliases ps)) (query n))) \<and>
      (key_unique (query n) \<longrightarrow>
         (\<forall>k. dict_get (fst (dict_merge (registered (aliases ps)) (query n))) k =
                (case dict_get (query n) k of
                   Some v \<Rightarrow> Some v
                 | None \<Rightarrow> dict_get (registered (aliases ps)) k)) \<and>
         dict_getKeys (fst (dict_merge (registered (aliases ps)) (query n))) =
           dict_getKeys (registered (aliases ps)) @
           filter (\<lambda>k. k \<notin> set (dict_getKeys (registered (aliases ps))))
             (dict_getKeys (query n))))"
proof (intro conjI allI impI)
  from every_url_reads [of "url n"] show "\<exists>ps. wellFormed ps \<and> url n = render ps"
    by auto
next
  fix ps
  assume "wellFormed ps \<and> url n = render ps"
  then show "toUrlAndQuery n =
        rewritten ps @
        queryString (fst (dict_merge (registered (aliases ps)) (query n)))"
    by (simp add: toUrlAndQuery_unfold replaceAliases_render)
next
  fix ps k
  assume "key_unique (query n)"
  then show "dict_get (fst (dict_merge (registered (aliases ps)) (query n))) k =
                (case dict_get (query n) k of
                   Some v \<Rightarrow> Some v
                 | None \<Rightarrow> dict_get (registered (aliases ps)) k)"
    by (rule dict_get_merge)
next
  fix ps
  assume "key_unique (query n)"
  then show "dict_getKeys (fst (dict_merge (registered (aliases ps)) (query n))) =
           dict_getKeys (registered (aliases ps)) @
           filter (\<lambda>k. k \<notin> set (dict_getKeys (registered (aliases ps))))
             (dict_getKeys (query n))"
    by (rule dict_getKeys_merge)
qed

theorem aliases_rewritten_witness:
  "wellFormed filtered_items_parts \<and>
   url filtered_items = render filtered_items_parts \<and>
   key_unique (query filtered_items) \<and>
   toUrlAndQuery filtered_items
     = ''_api/web/lists('a')/items(@p1)/x(@p2)?@p1='Some long value'&@p2=7&$select=Title,Id'' \<and>
   dict_get (fst (dict_merge (registered (aliases filtered_items_parts)) (query filtered_items)))
      ''@p2'' = Some ''7'' \<and>
   dict_getKeys (fst (dict_merge (registered (aliases filtered_items_parts))
      (query filtered_items))) = [''@p1'', ''@p2'', ''$select''] \<and>
   wellFormed colon_in_label_item_parts \<and>
   url colon_in_label_item = render colon_in_label_item_parts \<and>
   toUrlAndQuery colon_in_label_item = ''_api/f(@a:b)?@a:b='v'' @ [CHR 0x27] \<and>
   wellFormed quoted_value_item_reading \<and>
   url quoted_value_item = render quoted_value_item_reading \<and>
   toUrlAndQuery quoted_value_item = ''_api/web/lists(@pBrien')?@p='O'' @ [CHR 0x27]"
proof -
  have w: "wellFormed filtered_items_parts"
    by code_simp
  have u: "url filtered_items = render filtered_items_parts"
    by (simp add: filtered_items_def filtered_items_parts_def)
  have k: "key_unique (query filtered_items)"
    by (simp add: filtered_items_def key_unique_def)
  have r: "registered (aliases filtered_items_parts)
      = [(''@p1'', CHR 0x27 # ''Some long value'' @ [CHR 0x27]), (''@p2'', CHR 0x27 # ''y'' @ [CHR 0x27])]"
    by (simp add: filtered_items_parts_def registered_def)
  have q: "query filtered_items = [(''$select'', ''Title,Id''), (''@p2'', ''7'')]"
    by (simp add: filtered_items_def)
  have b: "rewritten filtered_items_parts = ''_api/web/lists('a')/items(@p1)/x(@p2)''"
    by (simp add: filtered_items_parts_def)
  note t = aliases_rewritten [of filtered_items, THEN conjunct2, rule_format,
      of filtered_items_parts, OF conjI [OF w u]]
  have first: "toUrlAndQuery filtered_items
      = ''_api/web/lists('a')/items(@p1)/x(@p2)?@p1='Some long value'&@p2=7&$select=Title,Id'' \<and>
    dict_get (fst (dict_merge (registered (aliases filtered_items_parts)) (query filtered_items)))
      ''@p2'' = Some ''7'' \<and>
    dict_getKeys (fst (dict_merge (registered (aliases filtered_items_parts))
      (query filtered_items))) = [''@p1'', ''@p2'', ''$select'']"
    using t [THEN conjunct1] t [THEN conjunct2, rule_format, OF k]
    by (simp add: r q b dict_merge_def queryString_def dict_get_def dict_getKeys_def)
  have w2: "wellFormed colon_in_label_item_parts"
    by code_simp
  have u2: "url colon_in_label_item = render colon_in_label_item_parts"
    by (simp add: colon_in_label_item_def colon_in_label_item_parts_def)
  have second: "toUrlAndQuery colon_in_label_item = ''_api/f(@a:b)?@a:b='v'' @ [CHR 0x27]"
    using aliases_rewritten [of colon_in_label_item, THEN conjunct2, rule_format,
      of colon_in_label_item_parts, OF conjI [OF w2 u2], THEN conjunct1]
    by (simp add: colon_in_label_item_def colon_in_label_item_parts_def registered_def
        dict_merge_def queryString_def ODataQueryable_def)
  have w3: "wellFormed quoted_value_item_reading"
    by code_simp
  have u3: "url quoted_value_item = render quoted_value_item_reading"
    by (simp add: quoted_value_item_def quoted_value_item_reading_def)
  have third: "toUrlAndQuery quoted_value_item = ''_api/web/lists(@pBrien')?@p='O'' @ [CHR 0x27]"
    using aliases_rewritten [of quoted_value_item, THEN conjunct2, rule_format,
      of quoted_value_item_reading, OF conjI [OF w3 u3], THEN conjunct1]
    by (simp add: quoted_value_item_def quoted_value_item_reading_def registered_def
        dict_merge_def queryString_def ODataQueryable_def)
  from w u k first w2 u2 second w3 u3 third show ?thesis
    by simp
qed

text \<open>
  The claim as it was stated, for every token delimited by single quotes with a label
  and a value separated by \<open>::\<close>, fails at four readings. A value of two lines: the dot
  of the pattern matches no line terminator, the token stays in the URL and no
  parameter is registered. A value with a single quote: the value ends at the quote
  and what follows stays in the URL. A label with \<open>::\<close>: the label ends at the first
  \<open>::\<close> and the rest is the value. A token after a \<open>'!@\<close> in plain text on the same
  line: the match starts at the first \<open>'!@\<close> and the label runs over the second.
\<close>

theorem alias_tokens_counterexample:
  "(url two_line_item = render two_line_item_parts \<and>
    toUrlAndQuery two_line_item = url two_line_item \<and>
    toUrlAndQuery two_line_item \<noteq>
      rewritten two_line_item_parts @
      queryString (fst (dict_merge (registered (aliases two_line_item_parts))
        (query two_line_item)))) \<and>
   (url quoted_value_item = render quoted_value_item_parts \<and>
    toUrlAndQuery quoted_value_item = ''_api/web/lists(@pBrien')?@p='O'' @ [CHR 0x27] \<and>
    toUrlAndQuery quoted_value_item \<noteq>
      rewritten quoted_value_item_parts @
      queryString (fst (dict_merge (registered (aliases quoted_value_item_parts))
        (query quoted_value_item)))) \<and>
   (url separator_in_label_item = render separator_in_label_item_parts \<and>
    toUrlAndQuery separator_in_label_item = ''_api/web/lists(@a)?@a='b::v'' @ [CHR 0x27] \<and>
    toUrlAndQuery separator_in_label_item \<noteq>
      rewritten separator_in_label_item_parts @
      queryString (fst (dict_merge (registered (aliases separator_in_label_item_parts))
        (query separator_in_label_item)))) \<and>
   (url token_in_text_item = render token_in_text_item_parts \<and>
    toUrlAndQuery token_in_text_item = ''_api/f(@x)/g('!@p)?@x)/g('!@p='v'' @ [CHR 0x27] \<and>
    toUrlAndQuery token_in_text_item \<noteq>
      rewritten token_in_text_item_parts @
      queryString (fst (dict_merge (registered (aliases token_in_text_item_parts))
        (query token_in_text_item))))"
proof -
  have u1: "url two_line_item = render two_line_item_parts"
    by (simp add: two_line_item_def two_line_item_parts_def)
  have s1: "toUrlAndQuery two_line_item = ''_api/web/lists('!@p1::a'' @ [CHR 0x0A] @ ''b')''"
    by code_simp
  have v1: "url two_line_item = ''_api/web/lists('!@p1::a'' @ [CHR 0x0A] @ ''b')''"
    by (simp add: two_line_item_def)
  have c1: "rewritten two_line_item_parts @
      queryString (fst (dict_merge (registered (aliases two_line_item_parts))
        (query two_line_item)))
      = ''_api/web/lists(@p1)?@p1='a'' @ [CHR 0x0A] @ ''b'' @ [CHR 0x27]"
    by (simp add: two_line_item_def two_line_item_parts_def registered_def dict_merge_def
        queryString_def ODataQueryable_def)
  have n1: "''_api/web/lists('!@p1::a'' @ [CHR 0x0A] @ ''b')''
      \<noteq> ''_api/web/lists(@p1)?@p1='a'' @ [CHR 0x0A] @ ''b'' @ [CHR 0x27]"
    by simp
  have first: "url two_line_item = render two_line_item_parts \<and>
    toUrlAndQuery two_line_item = url two_line_item \<and>
    toUrlAndQuery two_line_item \<noteq>
      rewritten two_line_item_parts @
      queryString (fst (dict_merge (registered (aliases two_line_item_parts))
        (query two_line_item)))"
    unfolding s1 c1 v1 [symmetric] using u1 n1 v1 by simp
  have u2: "url quoted_value_item = render quoted_value_item_parts"
    by (simp add: quoted_value_item_def quoted_value_item_parts_def)
  have s2: "toUrlAndQuery quoted_value_item = ''_api/web/lists(@pBrien')?@p='O'' @ [CHR 0x27]"
    by code_simp
  have c2: "rewritten quoted_value_item_parts @
      queryString (fst (dict_merge (registered (aliases quoted_value_item_parts))
        (query quoted_value_item)))
      = ''_api/web/lists(@p)?@p='O'Brien'' @ [CHR 0x27]"
    by (simp add: quoted_value_item_def quoted_value_item_parts_def registered_def
        dict_merge_def queryString_def ODataQueryable_def)
  have second: "url quoted_value_item = render quoted_value_item_parts \<and>
    toUrlAndQuery quoted_value_item = ''_api/web/lists(@pBrien')?@p='O'' @ [CHR 0x27] \<and>
    toUrlAndQuery quoted_value_item \<noteq>
      rewritten quoted_value_item_parts @
      queryString (fst (dict_merge (registered (aliases quoted_value_item_parts))
        (query quoted_value_item)))"
    unfolding s2 c2 using u2 by simp
  have u3: "url separator_in_label_item = render separator_in_label_item_parts"
    by (simp add: separator_in_label_item_def separator_in_label_item_parts_def)
  have s3: "toUrlAndQuery separator_in_label_item = ''_api/web/lists(@a)?@a='b::v'' @ [CHR 0x27]"
    by code_simp
  have c3: "rewritten separator_in_label_item_parts @
      queryString (fst (dict_merge (registered (aliases separator_in_label_item_parts))
        (query separator_in_label_item)))
      = ''_api/web/lists(@a::b)?@a::b='v'' @ [CHR 0x27]"
    by (simp add: separator_in_label_item_def separator_in_label_item_parts_def registered_def
        dict_merge_def queryString_def ODataQueryable_def)
  have third: "url separator_in_label_item = render separator_in_label_item_parts \<and>
    toUrlAndQuery separator_in_label_item = ''_api/web/lists(@a)?@a='b::v'' @ [CHR 0x27] \<and>
    toUrlAndQuery separator_in_label_item \<noteq>
      rewritten separator_in_label_item_parts @
      queryString (fst (dict_merge (registered (aliases separator_in_label_item_parts))
        (query separator_in_label_item)))"
    unfolding s3 c3 using u3 by simp
  have u4: "url token_in_text_item = render token_in_text_item_parts"
    by (simp add: token_in_text_item_def token_in_text_item_parts_def)
  have s4: "toUrlAndQuery token_in_text_item
      = ''_api/f(@x)/g('!@p)?@x)/g('!@p='v'' @ [CHR 0x27]"
    by code_simp
  have c4: "rewritten token_in_text_item_parts @
      queryString (fst (dict_merge (registered (aliases token_in_text_item_parts))
        (query token_in_text_item)))
      = ''_api/f('!@x)/g(@p)?@p='v'' @ [CHR 0x27]"
    by (simp add: token_in_text_item_def token_in_text_item_parts_def registered_def
        dict_merge_def queryString_def ODataQueryable_def)
  have fourth: "url token_in_text_item = render token_in_text_item_parts \<and>
    toUrlAndQuery token_in_text_item = ''_api/f(@x)/g('!@p)?@x)/g('!@p='v'' @ [CHR 0x27] \<and>
    toUrlAndQuery token_in_text_item \<noteq>
      rewritten token_in_text_item_parts @
      queryString (fst (dict_merge (registered (aliases token_in_text_item_parts))
        (query token_in_text_item)))"
    unfolding s4 c4 using u4 by simp
  show ?thesis
    by (rule conjI [OF first conjI [OF second conjI [OF third fourth]]])
qed

end
